theory Spec2Isabelle
  imports Complex_Main "HOL-Library.AList"
begin

section \<open>The room server of collab-canvas\<close>

text \<open>
  The server keeps one global table \<^verbatim>\<open>rooms\<close> (a JavaScript \<^verbatim>\<open>Map\<close> from room id to
  room) and, for every socket, the two closure variables \<^verbatim>\<open>currentRoom\<close> and
  \<^verbatim>\<open>currentUser\<close> of its \<^verbatim>\<open>io.on('connection', ...)\<close> callback. Every handler runs to
  completion, so a handler is a function from the table and the socket's closure to the
  new table, the new closure and the list of events it emits.
\<close>

subsection \<open>Data model\<close>

text \<open>
  \<^verbatim>\<open>interface User\<close>. The payload of \<^verbatim>\<open>create-room\<close> and \<^verbatim>\<open>join-room\<close> is a
  \<^verbatim>\<open>Partial<User>\<close>: every field may be missing, \<^verbatim>\<open>id\<close> included.
\<close>

record user =
  id_user :: string
  name :: "string option"
  color :: "string option"
  joinedAt :: "int option"
  userId :: "string option"

record partial_user =
  p_id :: "string option"
  p_name :: "string option"
  p_color :: "string option"
  p_joinedAt :: "int option"
  p_userId :: "string option"

text \<open>
  \<^verbatim>\<open>interface CanvasObject { id: string; [key: string]: any }\<close>: the server reads \<^verbatim>\<open>id\<close>
  only; all other keys are carried as one opaque value.
\<close>

record canvasObject =
  id_obj :: string
  props :: string

record canvas_state =
  objects :: "canvasObject list"
  theme :: string
  canvasColor :: string

text \<open>
  \<^verbatim>\<open>interface Room\<close>. \<^verbatim>\<open>users\<close> is a \<^verbatim>\<open>Map\<close> whose iteration order (the order of first
  insertion) is observable through \<^verbatim>\<open>Array.from(room.users.values())\<close>, so it is an
  association list: \<^const>\<open>AList.update\<close> is \<^verbatim>\<open>Map.set\<close> (replace in place, else append) and
  \<^const>\<open>AList.delete\<close> is \<^verbatim>\<open>Map.delete\<close>. \<^verbatim>\<open>rejoinCounts\<close> is only looked up by key.
  Times are milliseconds, as \<^verbatim>\<open>Date.now()\<close> returns them.
\<close>

record room =
  users :: "(string \<times> user) list"
  canvasState :: canvas_state
  password :: string
  createdAt :: int
  expiresAt :: int
  rejoinCounts :: "string \<rightharpoonup> nat"
  creatorId :: string

type_synonym room_table = "string \<rightharpoonup> room"

text \<open>
  The per-socket closure. \<open>joined\<close> is the set of socket.io broadcast groups the socket
  has entered with \<^verbatim>\<open>socket.join\<close> and not left with \<^verbatim>\<open>socket.leave\<close>; \<open>online\<close>
  turns false when the transport closes.
\<close>

record session =
  currentRoom :: "string option"
  currentUser :: "user option"
  joined :: "string set"
  online :: bool

text \<open>Events the server emits, named after the socket.io event they are sent as.\<close>

datatype event =
    RoomCreated string string user
  | RoomValidationFailed string
  | RoomValidationSuccess
  | Error string
  | RoomJoined string user canvas_state "user list" "nat option"
  | UserJoined user
  | UserLeft string
  | CanvasObjectAdded canvasObject
  | CanvasObjectModified canvasObject
  | CanvasObjectRemoved string
  | CanvasClear
  | CursorPosition string real real
  | ThemeChange string "string option"

text \<open>
  \<open>ToSender\<close> is \<^verbatim>\<open>socket.emit\<close>; \<open>ToOthers r\<close> is \<^verbatim>\<open>socket.to(r).emit\<close>, which socket.io
  delivers to every socket in group \<open>r\<close> except the emitting one.
\<close>

datatype target = ToSender | ToOthers string

type_synonym emit = "target \<times> event"

type_synonym outcome = "room_table \<times> session \<times> emit list"

subsection \<open>JavaScript helpers\<close>

text \<open>
  A string or \<^verbatim>\<open>null\<close> is truthy when it is a non-empty string: the test behind
  \<^verbatim>\<open>if (!currentRoom) return\<close>, \<^verbatim>\<open>userData.userId || socket.id\<close> and \<^verbatim>\<open>if (data.color)\<close>.
\<close>

definition truthy :: "string option \<Rightarrow> bool" where
  "truthy v = (case v of None \<Rightarrow> False | Some s \<Rightarrow> s \<noteq> [])"

text \<open>\<^verbatim>\<open>{ id: socket.id, ...userData }\<close>: a key of the payload overrides \<^verbatim>\<open>id\<close>.\<close>

definition mk_user :: "string \<Rightarrow> partial_user \<Rightarrow> user" where
  "mk_user sid userData =
     \<lparr> id_user = (case p_id userData of None \<Rightarrow> sid | Some i \<Rightarrow> i),
       name = p_name userData,
       color = p_color userData,
       joinedAt = p_joinedAt userData,
       userId = p_userId userData \<rparr>"

text \<open>\<^verbatim>\<open>String.prototype.substring(start, end)\<close>: both indices are clamped, then ordered.\<close>

definition substring :: "nat \<Rightarrow> nat \<Rightarrow> string \<Rightarrow> string" where
  "substring start end s =
     (let a = min start (length s);
          b = min end (length s);
          lo = min a b;
          hi = max a b
      in take (hi - lo) (drop lo s))"

text \<open>\<^verbatim>\<open>toUpperCase\<close> on the characters a base-36 rendering can hold (ASCII).\<close>

definition toUpperCase_char :: "char \<Rightarrow> char" where
  "toUpperCase_char c =
     (case map_of (zip ''abcdefghijklmnopqrstuvwxyz'' ''ABCDEFGHIJKLMNOPQRSTUVWXYZ'') c of
        None \<Rightarrow> c
      | Some u \<Rightarrow> u)"

definition toUpperCase :: "string \<Rightarrow> string" where
  "toUpperCase s = map toUpperCase_char s"

text \<open>\<^verbatim>\<open>charAt(i)\<close> is the empty string when \<open>i\<close> is out of range.\<close>

definition charAt :: "string \<Rightarrow> int \<Rightarrow> string" where
  "charAt s i = (if 0 \<le> i \<and> i < int (length s) then [s ! nat i] else [])"

text \<open>
  Numbers are IEEE 754 binary64. A product of two doubles is the exact product rounded to
  the nearest double, a tie going to the even significand: \<open>binade y\<close> is the exponent of
  \<open>y\<close> (not below that of the subnormals), the doubles around \<open>y\<close> are the
  multiples of \<open>2 powr (binade y - 52)\<close>, and \<open>round_to_double\<close> picks the nearest one.
  Overflow to infinity is not modelled; no product here comes near it.
\<close>

definition round_half_even :: "real \<Rightarrow> int" where
  "round_half_even q =
     (let f = \<lfloor>q\<rfloor>
      in if q - of_int f < 1 / 2 then f
         else if q - of_int f > 1 / 2 then f + 1
         else if even f then f else f + 1)"

definition binade :: "real \<Rightarrow> int" where
  "binade y = max (- 1022) \<lfloor>log 2 \<bar>y\<bar>\<rfloor>"

definition round_to_double :: "real \<Rightarrow> real" where
  "round_to_double y =
     (if y = 0 then 0
      else let u = 2 powr (of_int (binade y) - 52)
           in of_int (round_half_even (y / u)) * u)"

definition times_double :: "real \<Rightarrow> real \<Rightarrow> real" where
  "times_double x y = round_to_double (x * y)"

text \<open>\<^verbatim>\<open>Array.prototype.findIndex\<close>; \<open>None\<close> stands for the result \<open>-1\<close>.\<close>

fun findIndex :: "('a \<Rightarrow> bool) \<Rightarrow> 'a list \<Rightarrow> nat option" where
  "findIndex p [] = None"
| "findIndex p (x # xs) =
     (if p x then Some 0 else map_option Suc (findIndex p xs))"

subsection \<open>Identifier and password generation\<close>

text \<open>
  \<^verbatim>\<open>Math.random().toString(36).substring(2, 8).toUpperCase()\<close>. The argument is the text
  that \<^verbatim>\<open>Math.random().toString(36)\<close> produced: \<^verbatim>\<open>"0."\<close> followed by the base-36 digits
  of the fraction, as many as the number has, or \<^verbatim>\<open>"0"\<close> alone.
\<close>

definition generateRoomId :: "string \<Rightarrow> string" where
  "generateRoomId random36 = toUpperCase (substring 2 8 random36)"

definition chars :: string where
  "chars = ''ABCDEFGHIJKLMNOPQRSTUVWXYZ0123456789''"

text \<open>
  The loop \<^verbatim>\<open>for (let i = 0; i < 6; i++) password += chars.charAt(Math.floor(Math.random() *
  chars.length))\<close>. \<open>rnd i\<close> is the value of the call of \<^verbatim>\<open>Math.random()\<close> in round \<open>i\<close>,
  a double in \<open>[0, 1)\<close>, that is, at most \<open>1 - 1 / 2 ^ 53\<close>; the product is the double
  product \<open>times_double\<close>.
\<close>

function generateRoomPassword_loop :: "(nat \<Rightarrow> real) \<Rightarrow> nat \<Rightarrow> string \<Rightarrow> string" where
  "generateRoomPassword_loop rnd i pw =
     (if i < 6
      then generateRoomPassword_loop rnd (Suc i)
             (pw @ charAt chars \<lfloor>times_double (rnd i) (real (length chars))\<rfloor>)
      else pw)"
  by pat_completeness auto
termination
  by (relation "measure (\<lambda>(rnd, i, pw). 6 - i)") auto

definition generateRoomPassword :: "(nat \<Rightarrow> real) \<Rightarrow> string" where
  "generateRoomPassword rnd = generateRoomPassword_loop rnd 0 []"

subsection \<open>Handlers\<close>

text \<open>
  What a handler reads from its environment: \<open>now\<close> is the first \<^verbatim>\<open>Date.now()\<close> of the
  handler and \<open>now2\<close> the second one (only \<^verbatim>\<open>create-room\<close> reads the clock twice);
  \<open>random36\<close> and \<open>draws\<close> feed the two generators.
\<close>

record env =
  now :: int
  now2 :: int
  random36 :: string
  draws :: "nat \<Rightarrow> real"

definition create_room :: "string \<Rightarrow> partial_user \<Rightarrow> env \<Rightarrow> room_table \<Rightarrow> session \<Rightarrow> outcome" where
  "create_room sid userData e rooms s =
     (let roomId = generateRoomId (random36 e);
          pw = generateRoomPassword (draws e);
          cu = mk_user sid userData
      in (rooms(roomId \<mapsto>
            \<lparr> users = [(sid, cu)],
              canvasState = \<lparr> objects = [], theme = ''dark'', canvasColor = ''#1a1a1a'' \<rparr>,
              password = pw,
              createdAt = now e,
              expiresAt = now2 e + 24 * 60 * 60 * 1000,
              rejoinCounts = Map.empty,
              creatorId = sid \<rparr>),
          s\<lparr> currentRoom := Some roomId, currentUser := Some cu,
             joined := insert roomId (joined s) \<rparr>,
          [(ToSender, RoomCreated roomId pw cu)]))"

text \<open>\<^verbatim>\<open>validate-room\<close>: an expired room is deleted on the way; nothing else changes.\<close>

definition validate_room :: "string \<Rightarrow> string \<Rightarrow> env \<Rightarrow> room_table \<Rightarrow> session \<Rightarrow> outcome" where
  "validate_room roomId pw e rooms s =
     (case rooms roomId of
        None \<Rightarrow> (rooms, s, [(ToSender, RoomValidationFailed ''Room not found'')])
      | Some room \<Rightarrow>
          if now e > expiresAt room
          then (rooms(roomId := None), s,
                [(ToSender, RoomValidationFailed ''Room has expired (24 hour limit)'')])
          else if password room \<noteq> pw
          then (rooms, s, [(ToSender, RoomValidationFailed ''Incorrect password'')])
          else (rooms, s, [(ToSender, RoomValidationSuccess)]))"

text \<open>
  \<^verbatim>\<open>join-room\<close>. \<open>userIdToTrack\<close> is \<^verbatim>\<open>userData.userId || socket.id\<close> and \<open>rejoinCount\<close> is
  \<^verbatim>\<open>room.rejoinCounts.get(userIdToTrack) || 0\<close>. The room object is shared with the
  table, so the updated room is written back under \<open>roomId\<close>.
\<close>

definition userIdToTrack :: "string \<Rightarrow> partial_user \<Rightarrow> string" where
  "userIdToTrack sid userData =
     (case p_userId userData of
        None \<Rightarrow> sid
      | Some u \<Rightarrow> if u \<noteq> [] then u else sid)"

definition join_room :: "string \<Rightarrow> string \<Rightarrow> string \<Rightarrow> partial_user \<Rightarrow> env \<Rightarrow> room_table \<Rightarrow> session \<Rightarrow> outcome" where
  "join_room sid roomId pw userData e rooms s =
     (case rooms roomId of
        None \<Rightarrow> (rooms, s, [(ToSender, Error ''Room not found or expired'')])
      | Some room \<Rightarrow>
          if now e > expiresAt room
          then (rooms(roomId := None), s,
                [(ToSender, Error ''Room has expired (24 hour limit)'')])
          else if password room \<noteq> pw
          then (rooms, s, [(ToSender, Error ''Incorrect password'')])
          else
            let key = userIdToTrack sid userData;
                rejoinCount = (case rejoinCounts room key of None \<Rightarrow> 0 | Some n \<Rightarrow> n)
            in if rejoinCount \<ge> 3
               then (rooms, s,
                     [(ToSender, Error ''Maximum rejoin limit reached (3 attempts)'')])
               else
                 let cu = mk_user sid userData;
                     users' = AList.update sid cu (users room);
                     counts' =
                       (if rejoinCount > 0 \<or> rejoinCounts room key \<noteq> None
                        then (rejoinCounts room)(key \<mapsto> rejoinCount + 1)
                        else (rejoinCounts room)(key \<mapsto> 0));
                     room' = room\<lparr> users := users', rejoinCounts := counts' \<rparr>
                 in (rooms(roomId \<mapsto> room'),
                     s\<lparr> currentRoom := Some roomId, currentUser := Some cu,
                        joined := insert roomId (joined s) \<rparr>,
                     [(ToSender,
                       RoomJoined roomId cu (canvasState room') (map snd users') (counts' key)),
                      (ToOthers roomId, UserJoined cu)]))"

text \<open>
  The canvas handlers start with \<^verbatim>\<open>if (!currentRoom) return\<close>, update the room when
  \<^verbatim>\<open>rooms.get(currentRoom)\<close> finds one, and relay the message in either case.
\<close>

definition object_added :: "string \<Rightarrow> canvasObject \<Rightarrow> room_table \<Rightarrow> session \<Rightarrow> outcome" where
  "object_added sid obj rooms s =
     (case currentRoom s of
        None \<Rightarrow> (rooms, s, [])
      | Some r \<Rightarrow>
          if r = [] then (rooms, s, [])
          else
            ((case rooms r of
                None \<Rightarrow> rooms
              | Some room \<Rightarrow>
                  rooms(r \<mapsto> room\<lparr> canvasState :=
                    (canvasState room)\<lparr> objects := objects (canvasState room) @ [obj] \<rparr> \<rparr>)),
             s, [(ToOthers r, CanvasObjectAdded obj)]))"

definition object_modified :: "string \<Rightarrow> canvasObject \<Rightarrow> room_table \<Rightarrow> session \<Rightarrow> outcome" where
  "object_modified sid obj rooms s =
     (case currentRoom s of
        None \<Rightarrow> (rooms, s, [])
      | Some r \<Rightarrow>
          if r = [] then (rooms, s, [])
          else
            ((case rooms r of
                None \<Rightarrow> rooms
              | Some room \<Rightarrow>
                  (case findIndex (\<lambda>x. id_obj x = id_obj obj) (objects (canvasState room)) of
                     None \<Rightarrow> rooms
                   | Some index \<Rightarrow>
                       rooms(r \<mapsto> room\<lparr> canvasState :=
                         (canvasState room)\<lparr> objects :=
                           (objects (canvasState room))[index := obj] \<rparr> \<rparr>))),
             s, [(ToOthers r, CanvasObjectModified obj)]))"

definition object_removed :: "string \<Rightarrow> string \<Rightarrow> room_table \<Rightarrow> session \<Rightarrow> outcome" where
  "object_removed sid objectId rooms s =
     (case currentRoom s of
        None \<Rightarrow> (rooms, s, [])
      | Some r \<Rightarrow>
          if r = [] then (rooms, s, [])
          else
            ((case rooms r of
                None \<Rightarrow> rooms
              | Some room \<Rightarrow>
                  rooms(r \<mapsto> room\<lparr> canvasState :=
                    (canvasState room)\<lparr> objects :=
                      filter (\<lambda>x. id_obj x \<noteq> objectId) (objects (canvasState room)) \<rparr> \<rparr>)),
             s, [(ToOthers r, CanvasObjectRemoved objectId)]))"

definition canvas_clear :: "string \<Rightarrow> room_table \<Rightarrow> session \<Rightarrow> outcome" where
  "canvas_clear sid rooms s =
     (case currentRoom s of
        None \<Rightarrow> (rooms, s, [])
      | Some r \<Rightarrow>
          if r = [] then (rooms, s, [])
          else
            ((case rooms r of
                None \<Rightarrow> rooms
              | Some room \<Rightarrow>
                  rooms(r \<mapsto> room\<lparr> canvasState := (canvasState room)\<lparr> objects := [] \<rparr> \<rparr>)),
             s, [(ToOthers r, CanvasClear)]))"

text \<open>\<^verbatim>\<open>cursor:position\<close> touches no room; the relayed payload is \<^verbatim>\<open>{ userId: socket.id, ...data }\<close>.\<close>

definition cursor_position :: "string \<Rightarrow> real \<Rightarrow> real \<Rightarrow> room_table \<Rightarrow> session \<Rightarrow> outcome" where
  "cursor_position sid x y rooms s =
     (case currentRoom s of
        None \<Rightarrow> (rooms, s, [])
      | Some r \<Rightarrow>
          if r = [] then (rooms, s, [])
          else (rooms, s, [(ToOthers r, CursorPosition sid x y)]))"

text \<open>\<^verbatim>\<open>theme-change\<close>: the colour is stored only when \<^verbatim>\<open>data.color\<close> is truthy.\<close>

definition theme_change :: "string \<Rightarrow> string \<Rightarrow> string option \<Rightarrow> room_table \<Rightarrow> session \<Rightarrow> outcome" where
  "theme_change sid th col rooms s =
     (case currentRoom s of
        None \<Rightarrow> (rooms, s, [])
      | Some r \<Rightarrow>
          if r = [] then (rooms, s, [])
          else
            ((case rooms r of
                None \<Rightarrow> rooms
              | Some room \<Rightarrow>
                  rooms(r \<mapsto> room\<lparr> canvasState :=
                    (case col of
                       None \<Rightarrow> (canvasState room)\<lparr> theme := th \<rparr>
                     | Some c \<Rightarrow>
                         if c \<noteq> [] then (canvasState room)\<lparr> theme := th, canvasColor := c \<rparr>
                         else (canvasState room)\<lparr> theme := th \<rparr>) \<rparr>)),
             s, [(ToOthers r, ThemeChange th col)]))"

text \<open>
  \<^verbatim>\<open>leave-room\<close>: inside \<^verbatim>\<open>if (currentRoom)\<close> the user is removed and \<^verbatim>\<open>user-left\<close> relayed
  when the room is found, the room is deleted when \<^verbatim>\<open>room.users.size === 0\<close>, and the
  socket leaves the group and resets both closure variables.
\<close>

definition leave_room :: "string \<Rightarrow> room_table \<Rightarrow> session \<Rightarrow> outcome" where
  "leave_room sid rooms s =
     (case currentRoom s of
        None \<Rightarrow> (rooms, s, [])
      | Some r \<Rightarrow>
          if r = [] then (rooms, s, [])
          else
            let s' = s\<lparr> currentRoom := None, currentUser := None, joined := joined s - {r} \<rparr>
            in (case rooms r of
                  None \<Rightarrow> (rooms, s', [])
                | Some room \<Rightarrow>
                    let users' = AList.delete sid (users room)
                    in ((if length users' = 0 then rooms(r := None)
                         else rooms(r \<mapsto> room\<lparr> users := users' \<rparr>)),
                        s', [(ToOthers r, UserLeft sid)])))"

text \<open>
  \<^verbatim>\<open>disconnect\<close>: the same removal and relay, but the empty room is only logged
  (\<^verbatim>\<open>is now empty but will persist for rejoining\<close>) and the closure variables are left
  as they are.
\<close>

definition disconnect :: "string \<Rightarrow> room_table \<Rightarrow> session \<Rightarrow> outcome" where
  "disconnect sid rooms s =
     (case currentRoom s of
        None \<Rightarrow> (rooms, s, [])
      | Some r \<Rightarrow>
          if r = [] then (rooms, s, [])
          else
            (case rooms r of
               None \<Rightarrow> (rooms, s, [])
             | Some room \<Rightarrow>
                 (rooms(r \<mapsto> room\<lparr> users := AList.delete sid (users room) \<rparr>),
                  s, [(ToOthers r, UserLeft sid)])))"

text \<open>
  The hourly sweep \<^verbatim>\<open>for (const [roomId, room] of rooms) if (now > room.expiresAt)
  rooms.delete(roomId)\<close>, with \<open>now\<close> read once before the loop.
\<close>

definition cleanup :: "int \<Rightarrow> room_table \<Rightarrow> room_table" where
  "cleanup t rooms =
     (\<lambda>roomId. case rooms roomId of
                  None \<Rightarrow> None
                | Some room \<Rightarrow> if t > expiresAt room then None else Some room)"

subsection \<open>The server as a transition system\<close>

text \<open>
  What a client can send, by event name. The chat, camera and WebRTC events only relay
  their payload; they write neither the table nor a closure variable and are left out.
\<close>

datatype message =
    Create_Room partial_user
  | Validate_Room string string
  | Join_Room string string partial_user
  | Canvas_Object_Added canvasObject
  | Canvas_Object_Modified canvasObject
  | Canvas_Object_Removed string
  | Canvas_Clear
  | Cursor_Position real real
  | Theme_Change string "string option"
  | Leave_Room

definition handle :: "string \<Rightarrow> message \<Rightarrow> env \<Rightarrow> room_table \<Rightarrow> session \<Rightarrow> outcome" where
  "handle sid m e rooms s =
     (case m of
        Create_Room userData \<Rightarrow> create_room sid userData e rooms s
      | Validate_Room roomId pw \<Rightarrow> validate_room roomId pw e rooms s
      | Join_Room roomId pw userData \<Rightarrow> join_room sid roomId pw userData e rooms s
      | Canvas_Object_Added obj \<Rightarrow> object_added sid obj rooms s
      | Canvas_Object_Modified obj \<Rightarrow> object_modified sid obj rooms s
      | Canvas_Object_Removed objectId \<Rightarrow> object_removed sid objectId rooms s
      | Canvas_Clear \<Rightarrow> canvas_clear sid rooms s
      | Cursor_Position x y \<Rightarrow> cursor_position sid x y rooms s
      | Theme_Change th col \<Rightarrow> theme_change sid th col rooms s
      | Leave_Room \<Rightarrow> leave_room sid rooms s)"

text \<open>
  The whole server: the table \<^verbatim>\<open>rooms\<close> and one closure per socket id that was ever
  handed to \<^verbatim>\<open>io.on('connection', ...)\<close>. socket.io gives every connection an id of
  its own, so \<open>Connect\<close> acts only on an id not seen before; a closed socket keeps its
  entry, receives nothing and sends nothing.
\<close>

record server =
  store :: room_table
  sockets :: "string \<rightharpoonup> session"

datatype input =
    Connect string
  | Message string message env
  | Disconnect string
  | Sweep int

definition init :: server where
  "init = \<lparr> store = Map.empty, sockets = Map.empty \<rparr>"

definition fresh_session :: session where
  "fresh_session = \<lparr> currentRoom = None, currentUser = None, joined = {}, online = True \<rparr>"

fun step :: "server \<Rightarrow> input \<Rightarrow> server \<times> emit list" where
  "step st (Connect c) =
     (case sockets st c of
        None \<Rightarrow> (st\<lparr> sockets := (sockets st)(c \<mapsto> fresh_session) \<rparr>, [])
      | Some s \<Rightarrow> (st, []))"
| "step st (Message c m e) =
     (case sockets st c of
        None \<Rightarrow> (st, [])
      | Some s \<Rightarrow>
          if online s
          then (case handle c m e (store st) s of
                  (rooms', s', out) \<Rightarrow>
                    (\<lparr> store = rooms', sockets = (sockets st)(c \<mapsto> s') \<rparr>, out))
          else (st, []))"
| "step st (Disconnect c) =
     (case sockets st c of
        None \<Rightarrow> (st, [])
      | Some s \<Rightarrow>
          if online s
          then (case disconnect c (store st) s of
                  (rooms', s', out) \<Rightarrow>
                    (\<lparr> store = rooms',
                       sockets = (sockets st)(c \<mapsto> s'\<lparr> joined := {}, online := False \<rparr>) \<rparr>,
                     out))
          else (st, []))"
| "step st (Sweep t) = (st\<lparr> store := cleanup t (store st) \<rparr>, [])"

fun run :: "server \<Rightarrow> input list \<Rightarrow> server" where
  "run st [] = st"
| "run st (i # evs) = run (fst (step st i)) evs"

text \<open>Who receives an emitted event, given the sockets and the emitting socket.\<close>

definition receives :: "(string \<rightharpoonup> session) \<Rightarrow> string \<Rightarrow> target \<Rightarrow> string \<Rightarrow> bool" where
  "receives socks sender tgt d =
     (case tgt of
        ToSender \<Rightarrow> d = sender
      | ToOthers r \<Rightarrow>
          d \<noteq> sender \<and>
          (case socks d of None \<Rightarrow> False | Some s \<Rightarrow> online s \<and> r \<in> joined s))"

text \<open>\<^verbatim>\<open>room.users.has(c)\<close>.\<close>

definition has_user :: "room \<Rightarrow> string \<Rightarrow> bool" where
  "has_user room c = (c \<in> fst ` set (users room))"

text \<open>A connection id is a key of \<^verbatim>\<open>users\<close> in at most one room of the table.\<close>

definition single_membership :: "room_table \<Rightarrow> bool" where
  "single_membership rooms =
     (\<forall>c r1 r2 room1 room2.
        rooms r1 = Some room1 \<and> rooms r2 = Some room2 \<and>
        has_user room1 c \<and> has_user room2 c \<longrightarrow> r1 = r2)"

text \<open>
  The client protocol sends \<^verbatim>\<open>create-room\<close> and \<^verbatim>\<open>join-room\<close> only from a socket whose
  \<^verbatim>\<open>currentRoom\<close> is \<^verbatim>\<open>null\<close>; the server itself does not check it. \<open>disciplined st evs\<close>
  says that the inputs \<open>evs\<close>, run from \<open>st\<close>, keep to that rule.
\<close>

fun binds_from_unbound :: "server \<Rightarrow> input \<Rightarrow> bool" where
  "binds_from_unbound st (Message c (Create_Room userData) e) =
     (case sockets st c of
        None \<Rightarrow> True
      | Some s \<Rightarrow> online s \<longrightarrow> currentRoom s = None)"
| "binds_from_unbound st (Message c (Join_Room roomId pw userData) e) =
     (case sockets st c of
        None \<Rightarrow> True
      | Some s \<Rightarrow> online s \<longrightarrow> currentRoom s = None)"
| "binds_from_unbound st i = True"

fun disciplined :: "server \<Rightarrow> input list \<Rightarrow> bool" where
  "disciplined st [] = True"
| "disciplined st (i # evs) = (binds_from_unbound st i \<and> disciplined (fst (step st i)) evs)"

subsection \<open>Invariants of the transition system\<close>

text \<open>
  Every key of a room's \<^verbatim>\<open>users\<close> belongs to a socket whose \<^verbatim>\<open>currentRoom\<close> is that
  room.
\<close>

definition bound_inv :: "room_table \<Rightarrow> (string \<rightharpoonup> session) \<Rightarrow> bool" where
  "bound_inv tbl socks =
     (\<forall>c r room. tbl r = Some room \<and> has_user room c \<longrightarrow>
        (\<exists>s. socks c = Some s \<and> currentRoom s = Some r))"

text \<open>
  Every key of a room's \<^verbatim>\<open>users\<close> belongs to a socket that, while it is connected, is
  in the room's broadcast group.
\<close>

definition group_inv :: "room_table \<Rightarrow> (string \<rightharpoonup> session) \<Rightarrow> bool" where
  "group_inv tbl socks =
     (\<forall>d r room. tbl r = Some room \<and> has_user room d \<longrightarrow>
        (\<exists>s. socks d = Some s \<and> (online s \<longrightarrow> r \<in> joined s)))"

text \<open>The table changed, if at all, in the \<^verbatim>\<open>canvasState\<close> of one room.\<close>

definition canvas_only :: "room_table \<Rightarrow> room_table \<Rightarrow> bool" where
  "canvas_only tbl tbl' =
     (tbl' = tbl \<or> (\<exists>r room cs. tbl r = Some room \<and> tbl' = tbl(r \<mapsto> room\<lparr> canvasState := cs \<rparr>)))"

subsection \<open>Example data\<close>

text \<open>
  Two profiles, an environment with a fixed clock and fixed random numbers (every draw
  of the password loop is \<open>1/2\<close>, which selects \<^verbatim>\<open>chars.charAt(18)\<close>), two canvas
  objects, and the room that \<open>c1\<close> gets from \<^verbatim>\<open>create-room\<close> when
  \<^verbatim>\<open>Math.random().toString(36)\<close> is \<^verbatim>\<open>"0.abcdefgh"\<close>.
\<close>

definition alice :: partial_user where
  "alice = \<lparr> p_id = None, p_name = Some ''Alice'', p_color = Some ''#e74c3c'',
             p_joinedAt = None, p_userId = None \<rparr>"

definition bob :: partial_user where
  "bob = \<lparr> p_id = None, p_name = Some ''Bob'', p_color = None,
           p_joinedAt = Some 1000, p_userId = Some ''bob-1'' \<rparr>"

definition env_at :: "int \<Rightarrow> string \<Rightarrow> env" where
  "env_at t txt = \<lparr> now = t, now2 = t, random36 = txt, draws = (\<lambda>i. 1 / 2) \<rparr>"

definition a1 :: canvasObject where
  "a1 = \<lparr> id_obj = ''a1'', props = ''{type: rect}'' \<rparr>"

definition b2 :: canvasObject where
  "b2 = \<lparr> id_obj = ''b2'', props = ''{type: circle}'' \<rparr>"

definition lone_room :: room where
  "lone_room =
     \<lparr> users = [(''c1'', mk_user ''c1'' alice)],
       canvasState = \<lparr> objects = [], theme = ''dark'', canvasColor = ''#1a1a1a'' \<rparr>,
       password = ''SSSSSS'',
       createdAt = 0,
       expiresAt = 86400000,
       rejoinCounts = Map.empty,
       creatorId = ''c1'' \<rparr>"

definition drawn_room :: room where
  "drawn_room =
     lone_room\<lparr> canvasState := \<lparr> objects = [a1], theme = ''light'', canvasColor = ''#ffffff'' \<rparr> \<rparr>"

definition limit_room :: room where
  "limit_room = lone_room\<lparr> rejoinCounts := [''bob-1'' \<mapsto> 3] \<rparr>"

definition bound_session :: session where
  "bound_session =
     \<lparr> currentRoom = Some ''ABCDEF'', currentUser = Some (mk_user ''c1'' alice),
       joined = {''ABCDEF''}, online = True \<rparr>"

definition trace_created :: "input list" where
  "trace_created = [Connect ''c1'', Message ''c1'' (Create_Room alice) (env_at 0 ''0.abcdefgh'')]"

definition trace_two_rooms :: "input list" where
  "trace_two_rooms = trace_created @ [Message ''c1'' (Create_Room alice) (env_at 5 ''0.uvwxyz12'')]"

definition trace_join_leave :: "input list" where
  "trace_join_leave = trace_created @
     [Connect ''c2'', Message ''c2'' (Join_Room ''ABCDEF'' ''SSSSSS'' bob) (env_at 10 []),
      Message ''c1'' Leave_Room (env_at 20 []),
      Message ''c1'' (Create_Room alice) (env_at 30 ''0.uvwxyz12'')]"

text \<open>
  Four sockets in turn join room \<open>ABCDEF\<close> under the stable id \<open>bob-1\<close> and disconnect;
  a fifth connects.
\<close>

definition trace_rejoins :: "input list" where
  "trace_rejoins = trace_created @
     [Connect ''c2'', Message ''c2'' (Join_Room ''ABCDEF'' ''SSSSSS'' bob) (env_at 10 []), Disconnect ''c2'',
      Connect ''c3'', Message ''c3'' (Join_Room ''ABCDEF'' ''SSSSSS'' bob) (env_at 20 []), Disconnect ''c3'',
      Connect ''c4'', Message ''c4'' (Join_Room ''ABCDEF'' ''SSSSSS'' bob) (env_at 30 []), Disconnect ''c4'',
      Connect ''c5'', Message ''c5'' (Join_Room ''ABCDEF'' ''SSSSSS'' bob) (env_at 40 []), Disconnect ''c5'',
      Connect ''c6'']"

section \<open>Properties\<close>

subsection \<open>The generators\<close>

lemma round_half_even_le: "q \<le> of_int n \<Longrightarrow> round_half_even q \<le> n"
  unfolding round_half_even_def Let_def by (auto split: if_splits; linarith)

lemma round_half_even_below: "q < of_int n - 1 / 2 \<Longrightarrow> round_half_even q \<le> n - 1"
  unfolding round_half_even_def Let_def by (auto split: if_splits; linarith)

lemma round_half_even_nonneg: "0 \<le> q \<Longrightarrow> 0 \<le> round_half_even q"
  unfolding round_half_even_def Let_def by (auto split: if_splits; linarith)

lemma round_half_even_int: "round_half_even (of_int k) = k"
  unfolding round_half_even_def Let_def by simp

lemma binade_eq:
  assumes "2 powr of_int e \<le> y" and "y < 2 powr (of_int e + 1)" and "- 1022 \<le> e"
  shows "binade y = e"
proof -
  have pos: "0 < y" using assms(1) by (smt (verit) powr_gt_zero)
  have "of_int e \<le> log 2 y" using assms(1) pos by (simp add: le_log_iff)
  moreover have "log 2 y < of_int e + 1" using assms(2) pos by (simp add: log_less_iff)
  ultimately have "\<lfloor>log 2 y\<rfloor> = e" by linarith
  with pos assms(3) show ?thesis by (simp add: binade_def)
qed

lemma below_next_binade:
  assumes "0 < y"
  shows "y < 2 powr (of_int (binade y) + 1)"
proof -
  have "log 2 y < of_int \<lfloor>log 2 y\<rfloor> + 1" by linarith
  also have "\<dots> \<le> of_int (binade y) + 1" using assms by (simp add: binade_def)
  finally have "log 2 y < of_int (binade y) + 1" .
  then show ?thesis using assms by (simp add: log_less_iff)
qed


lemma round_to_double_nonneg:
  assumes "0 \<le> y"
  shows "0 \<le> round_to_double y"
proof (cases "y = 0")
  case True
  then show ?thesis by (simp add: round_to_double_def)
next
  case False
  let ?u = "(2::real) powr (of_int (binade y) - 52)"
  have "0 \<le> y / ?u" using assms by simp
  then have "0 \<le> round_half_even (y / ?u)" by (rule round_half_even_nonneg)
  then have "0 \<le> of_int (round_half_even (y / ?u)) * ?u" by simp
  with False show ?thesis by (simp add: round_to_double_def Let_def)
qed

text \<open>A value stays within its binade, the upper end included.\<close>

lemma round_to_double_le_next_binade:
  assumes "0 < y"
  shows "round_to_double y \<le> 2 powr (of_int (binade y) + 1)"
proof -
  let ?u = "(2::real) powr (of_int (binade y) - 52)"
  have u: "0 < ?u" by simp
  have "of_int (binade y) + 1 = 53 + (of_int (binade y) - 52 :: real)" by simp
  then have split: "2 powr (of_int (binade y) + 1) = 2 powr 53 * ?u"
    by (simp only: powr_add)
  have "y < 2 powr 53 * ?u" using below_next_binade[OF assms] split by simp
  then have "y / ?u < 2 powr 53" using u by (simp add: divide_less_eq)
  also have "(2::real) powr 53 = of_int (2 ^ 53)" by simp
  finally have "round_half_even (y / ?u) \<le> 2 ^ 53"
    using round_half_even_le[of "y / ?u" "2 ^ 53"] by simp
  then have "(of_int (round_half_even (y / ?u)) :: real) \<le> of_int (2 ^ 53)"
    by (simp only: of_int_le_iff)
  then have "of_int (round_half_even (y / ?u)) * ?u \<le> of_int (2 ^ 53) * ?u"
    using u by (simp only: mult_le_cancel_right_pos)
  also have "(of_int (2 ^ 53) :: real) * ?u = 2 powr (of_int (binade y) + 1)"
    using split by simp
  finally show ?thesis using assms by (simp add: round_to_double_def Let_def)
qed

lemma binade_le:
  assumes "0 < y" and "y < 2 powr of_int e" and "- 1022 < e"
  shows "binade y \<le> e - 1"
proof -
  have "log 2 y < of_int e" using assms(1,2) by (simp add: log_less_iff)
  then have "\<lfloor>log 2 y\<rfloor> \<le> e - 1" by linarith
  with assms show ?thesis by (simp add: binade_def)
qed

lemma round_to_double_below_36:
  assumes "0 \<le> x" and "x \<le> 1 - 1 / 2 ^ 53"
  shows "round_to_double (x * 36) < 36"
proof -
  let ?y = "x * 36"
  consider "?y = 0" | "0 < ?y" "?y < 32" | "32 \<le> ?y"
    using assms(1) by fastforce
  then show ?thesis
  proof cases
    case 1
    then show ?thesis by (simp add: round_to_double_def)
  next
    case 2
    have "?y < 2 powr of_int 5" using 2(2) by simp
    from binade_le[OF 2(1) this] have "binade ?y \<le> 4" by simp
    then have "(2::real) powr (of_int (binade ?y) + 1) \<le> 2 powr 5"
      by (intro powr_mono) auto
    with round_to_double_le_next_binade[OF 2(1)] have "round_to_double ?y \<le> 2 powr 5"
      by linarith
    then show ?thesis by simp
  next
    case 3
    have lt: "?y < 36" using assms(2) by simp
    have b: "binade ?y = 5"
      by (rule binade_eq) (use 3 lt in simp_all)
    have pos: "(?y = 0) = False" using 3 by simp
    have u: "(2::real) powr (of_int 5 - 52) = 1 / 2 ^ 47"
      by (simp add: powr_minus_divide)
    have unfold: "round_to_double ?y =
                    of_int (round_half_even (?y / (1 / 2 ^ 47))) * (1 / 2 ^ 47)"
      by (simp only: round_to_double_def Let_def b u pos if_False)
    have q: "?y / (1 / 2 ^ 47) < of_int (36 * 2 ^ 47) - 1 / 2"
      using assms(2) by simp
    from round_half_even_below[OF q]
    have "round_half_even (?y / (1 / 2 ^ 47)) \<le> 36 * 2 ^ 47 - 1" .
    then have "(of_int (round_half_even (?y / (1 / 2 ^ 47))) :: real) \<le> of_int (36 * 2 ^ 47 - 1)"
      by (simp only: of_int_le_iff)
    then have "of_int (round_half_even (?y / (1 / 2 ^ 47))) * (1 / 2 ^ 47) \<le>
               (of_int (36 * 2 ^ 47 - 1) :: real) * (1 / 2 ^ 47)"
      by (intro mult_right_mono) auto
    also have "(of_int (36 * 2 ^ 47 - 1) :: real) * (1 / 2 ^ 47) < 36" by simp
    finally show ?thesis by (simp only: unfold)
  qed
qed

lemma round_to_double_exact:
  assumes "0 < y" and "binade y = e" and "y / 2 powr (of_int e - 52) = of_int k"
  shows "round_to_double y = y"
proof -
  have "of_int k * 2 powr (of_int e - 52) = y"
    using assms(3) by (simp add: field_simps)
  with assms show ?thesis by (simp add: round_to_double_def Let_def round_half_even_int)
qed

lemma times_double_half_36: "times_double (1 / 2) 36 = 18"
proof -
  have b: "binade 18 = 4"
    by (rule binade_eq) simp_all
  have "18 / 2 powr (of_int 4 - 52) = (of_int (18 * 2 ^ 48) :: real)"
    by (simp add: powr_minus_divide)
  from round_to_double_exact[OF _ b this] show ?thesis by (simp add: times_double_def)
qed

text \<open>A product just below 16 that lies halfway between two doubles and rounds up to 16.\<close>

lemma times_double_tie: "times_double (2001599834386887 / 2 ^ 52) 36 = 16"
proof -
  let ?y = "2001599834386887 / 2 ^ 52 * 36 :: real"
  have b: "binade ?y = 3"
    by (rule binade_eq) simp_all
  have y0: "(?y = 0) = False" by simp
  have u: "(2::real) powr (of_int 3 - 52) = 1 / 2 ^ 49"
    by (simp add: powr_minus_divide)
  have unfold: "round_to_double ?y = of_int (round_half_even (?y / (1 / 2 ^ 49))) * (1 / 2 ^ 49)"
    by (simp only: round_to_double_def Let_def b u y0 if_False)
  have q: "?y / (1 / 2 ^ 49) = of_int 9007199254740991 + 1 / 2" by simp
  have "round_half_even (of_int 9007199254740991 + 1 / 2) = 9007199254740992"
    unfolding round_half_even_def Let_def by simp
  then have "round_half_even (?y / (1 / 2 ^ 49)) = 9007199254740992"
    by (simp only: q)
  then have "round_to_double ?y = of_int 9007199254740992 * (1 / 2 ^ 49)"
    by (simp only: unfold)
  then show ?thesis by (simp add: times_double_def)
qed

lemma length_chars: "length chars = 36" by (simp add: chars_def)

lemma generateRoomId_length:
  "8 \<le> length t \<Longrightarrow> length (generateRoomId t) = 6"
  by (simp add: generateRoomId_def substring_def toUpperCase_def Let_def)

lemma generateRoomId_length_le: "length (generateRoomId t) \<le> 6"
  by (simp add: generateRoomId_def substring_def toUpperCase_def Let_def)

lemma charAt_draw:
  assumes "0 \<le> x" and "x \<le> 1 - 1 / 2 ^ 53"
  shows "\<exists>c. charAt chars \<lfloor>times_double x (real (length chars))\<rfloor> = [c] \<and> c \<in> set chars"
proof -
  let ?k = "\<lfloor>times_double x 36\<rfloor>"
  have "0 \<le> x * 36" using assms(1) by simp
  then have "0 \<le> times_double x 36"
    unfolding times_double_def by (rule round_to_double_nonneg)
  then have lo: "0 \<le> ?k" by simp
  have "times_double x 36 < 36"
    unfolding times_double_def by (rule round_to_double_below_36[OF assms])
  then have hi: "?k < 36" by (simp add: floor_less_iff)
  have "nat ?k < length chars" unfolding length_chars using lo hi by linarith
  then have "chars ! nat ?k \<in> set chars" by (rule nth_mem)
  moreover have "charAt chars \<lfloor>times_double x (real (length chars))\<rfloor> = [chars ! nat ?k]"
    unfolding charAt_def length_chars using lo hi by simp
  ultimately show ?thesis by simp
qed

lemma generateRoomPassword_loop_shape:
  assumes "\<forall>j<6. 0 \<le> draw j \<and> draw j \<le> 1 - 1 / 2 ^ 53"
  shows "length (generateRoomPassword_loop draw i pw) = length pw + (6 - i) \<and>
         set (generateRoomPassword_loop draw i pw) \<subseteq> set pw \<union> set chars"
  using assms
proof (induction draw i pw rule: generateRoomPassword_loop.induct)
  case (1 draw i pw)
  show ?case
  proof (cases "i < 6")
    case True
    then obtain c where c: "charAt chars \<lfloor>times_double (draw i) (real (length chars))\<rfloor> = [c]"
        "c \<in> set chars"
      using charAt_draw "1.prems" by blast
    from "1.IH"[OF True "1.prems"] c True show ?thesis
      by (subst generateRoomPassword_loop.simps, subst generateRoomPassword_loop.simps) auto
  next
    case False
    then show ?thesis by (subst generateRoomPassword_loop.simps, subst generateRoomPassword_loop.simps) simp
  qed
qed

lemma generateRoomPassword_shape:
  assumes "\<forall>j<6. 0 \<le> draw j \<and> draw j \<le> 1 - 1 / 2 ^ 53"
  shows "length (generateRoomPassword draw) = 6 \<and> set (generateRoomPassword draw) \<subseteq> set chars"
  using generateRoomPassword_loop_shape[OF assms, of 0 "[]"]
  by (simp add: generateRoomPassword_def)

lemma generateRoomPassword_half: "generateRoomPassword (\<lambda>i. 1 / 2) = ''SSSSSS''"
  by (simp add: generateRoomPassword_def times_double_half_36 charAt_def chars_def)

text \<open>
  The exact product of this draw and 36 is below 16 and floors to 15 (\<^verbatim>\<open>P\<close>); the double
  product is 16 (\<^verbatim>\<open>Q\<close>).
\<close>

lemma generateRoomPassword_tie:
  "generateRoomPassword (\<lambda>i. 2001599834386887 / 2 ^ 52) = ''QQQQQQ''"
  by (simp add: generateRoomPassword_def times_double_tie [simplified] charAt_def chars_def)

lemma create_room_canvasState:
  "\<exists>room. fst (create_room sid userData e tbl s) (generateRoomId (random36 e)) = Some room \<and>
      canvasState room = \<lparr> objects = [], theme = ''dark'', canvasColor = ''#1a1a1a'' \<rparr>"
  by (simp add: create_room_def Let_def)

lemmas ex_defs = alice_def bob_def env_at_def a1_def b2_def lone_room_def drawn_room_def
  limit_room_def bound_session_def trace_created_def trace_two_rooms_def trace_join_leave_def
  trace_rejoins_def

lemmas eval_defs = init_def fresh_session_def handle_def create_room_def join_room_def
  leave_room_def disconnect_def generateRoomId_def substring_def toUpperCase_def
  toUpperCase_char_def generateRoomPassword_half mk_user_def
  userIdToTrack_def Let_def

subsection \<open>Membership invariant\<close>

lemma has_user_update: "has_user (room\<lparr> users := AList.update c u (users room) \<rparr>) d = (d = c \<or> has_user room d)"
  by (auto simp: has_user_def dom_update)

lemma keys_delete: "fst ` set (AList.delete k al) = fst ` set al - {k}"
  by (induction al) auto

lemma has_user_delete: "has_user (room\<lparr> users := AList.delete c (users room) \<rparr>) d = (d \<noteq> c \<and> has_user room d)"
  by (auto simp: has_user_def keys_delete)

lemma has_user_canvas [simp]: "has_user (room\<lparr> canvasState := cs \<rparr>) d = has_user room d"
  by (simp add: has_user_def)

lemma has_user_counts [simp]: "has_user (room\<lparr> rejoinCounts := rc \<rparr>) d = has_user room d"
  by (simp add: has_user_def)

lemma bound_invI:
  "(\<And>d r room. tbl r = Some room \<Longrightarrow> has_user room d \<Longrightarrow>
      \<exists>s. socks d = Some s \<and> currentRoom s = Some r) \<Longrightarrow> bound_inv tbl socks"
  unfolding bound_inv_def by blast

lemma bound_invD:
  "bound_inv tbl socks \<Longrightarrow> tbl r = Some room \<Longrightarrow> has_user room d \<Longrightarrow>
     \<exists>s. socks d = Some s \<and> currentRoom s = Some r"
  unfolding bound_inv_def by blast

lemma bound_inv_single:
  assumes "bound_inv tbl socks"
  shows "single_membership tbl"
  unfolding single_membership_def
proof (intro allI impI)
  fix c r1 r2 room1 room2
  assume h: "tbl r1 = Some room1 \<and> tbl r2 = Some room2 \<and> has_user room1 c \<and> has_user room2 c"
  from h bound_invD[OF assms, of r1 room1 c] obtain s1 where s1: "socks c = Some s1" "currentRoom s1 = Some r1"
    by blast
  from h bound_invD[OF assms, of r2 room2 c] obtain s2 where s2: "socks c = Some s2" "currentRoom s2 = Some r2"
    by blast
  from s1 s2 show "r1 = r2" by simp
qed

lemma bound_inv_create:
  assumes "bound_inv tbl socks" and "socks c = Some s" and "currentRoom s = None"
    and "create_room c userData e tbl s = (tbl', s', out)"
  shows "bound_inv tbl' (socks(c \<mapsto> s'))"
proof (rule bound_invI)
  fix d r room
  assume new: "tbl' r = Some room" "has_user room d"
  let ?rid = "generateRoomId (random36 e)"
  have s': "currentRoom s' = Some ?rid"
    using assms(4) by (auto simp: create_room_def Let_def)
  show "\<exists>t. (socks(c \<mapsto> s')) d = Some t \<and> currentRoom t = Some r"
  proof (cases "r = ?rid")
    case True
    with new assms(4) have "d = c" by (auto simp: create_room_def Let_def has_user_def)
    with True s' show ?thesis by simp
  next
    case False
    with new(1) assms(4) have "tbl r = Some room" by (auto simp: create_room_def Let_def)
    from bound_invD[OF assms(1) this new(2)] obtain t where t: "socks d = Some t" "currentRoom t = Some r"
      by blast
    with assms(2,3) have "d \<noteq> c" by auto
    with t show ?thesis by simp
  qed
qed

lemma join_room_cases:
  assumes "join_room c roomId pw userData e tbl s = (tbl', s', out)"
  shows "(s' = s \<and> (tbl' = tbl \<or> tbl' = tbl(roomId := None))) \<or>
         (\<exists>room cu rc. tbl roomId = Some room \<and> currentRoom s' = Some roomId \<and>
            tbl' = tbl(roomId \<mapsto> room\<lparr> users := AList.update c cu (users room), rejoinCounts := rc \<rparr>))"
  using assms unfolding join_room_def Let_def
  by (auto split: option.splits if_splits)

lemma bound_inv_shrink:
  assumes "bound_inv tbl socks"
  shows "bound_inv (tbl(r := None)) socks"
  using assms unfolding bound_inv_def by auto

lemma bound_inv_same_socket:
  assumes "bound_inv tbl socks" and "socks c = Some s"
  shows "bound_inv tbl (socks(c \<mapsto> s))"
  using assms by (simp add: fun_upd_idem)

lemma bound_inv_join:
  assumes "bound_inv tbl socks" and "socks c = Some s" and "currentRoom s = None"
    and "join_room c roomId pw userData e tbl s = (tbl', s', out)"
  shows "bound_inv tbl' (socks(c \<mapsto> s'))"
proof -
  from join_room_cases[OF assms(4)] consider
      (unchanged) "s' = s" "tbl' = tbl"
    | (expired) "s' = s" "tbl' = tbl(roomId := None)"
    | (joined) room cu rc where "tbl roomId = Some room" "currentRoom s' = Some roomId"
         "tbl' = tbl(roomId \<mapsto> room\<lparr> users := AList.update c cu (users room), rejoinCounts := rc \<rparr>)"
    by blast
  then show ?thesis
  proof cases
    case unchanged
    then show ?thesis using assms(1,2) by (simp add: bound_inv_same_socket)
  next
    case expired
    then show ?thesis using assms(1,2) by (simp add: bound_inv_same_socket bound_inv_shrink)
  next
    case joined
    show ?thesis
    proof (rule bound_invI)
      fix d r room'
      assume new: "tbl' r = Some room'" "has_user room' d"
      show "\<exists>t. (socks(c \<mapsto> s')) d = Some t \<and> currentRoom t = Some r"
      proof (cases "d = c")
        case True
        have "r = roomId"
        proof (rule ccontr)
          assume "r \<noteq> roomId"
          with new joined(3) have "tbl r = Some room'" by simp
          from bound_invD[OF assms(1) this new(2)] True assms(2,3) show False by auto
        qed
        with True joined(2) show ?thesis by simp
      next
        case False
        have "\<exists>room0. tbl r = Some room0 \<and> has_user room0 d"
        proof (cases "r = roomId")
          case True
          with new joined(3) False have "has_user room d"
            by (auto simp: has_user_update)
          with True joined(1) show ?thesis by blast
        next
          case False
          with new joined(3) show ?thesis by auto
        qed
        then obtain room0 where "tbl r = Some room0" "has_user room0 d" by blast
        from bound_invD[OF assms(1) this] False show ?thesis by simp
      qed
    qed
  qed
qed


lemma room_table_cases:
  "(tbl(r \<mapsto> room)) r' = Some room' \<Longrightarrow> (r' = r \<and> room' = room) \<or> (r' \<noteq> r \<and> tbl r' = Some room')"
  by (auto split: if_splits)

lemma bound_inv_same_members:
  assumes "bound_inv tbl socks" and "tbl r = Some room"
    and "\<And>d. has_user room' d \<Longrightarrow> has_user room d"
  shows "bound_inv (tbl(r \<mapsto> room')) socks"
proof (rule bound_invI)
  fix d r' room''
  assume new: "(tbl(r \<mapsto> room')) r' = Some room''" "has_user room'' d"
  from room_table_cases[OF new(1)] new(2) assms(2,3)
  have "\<exists>room0. tbl r' = Some room0 \<and> has_user room0 d" by auto
  then show "\<exists>s. socks d = Some s \<and> currentRoom s = Some r'"
    using bound_invD[OF assms(1)] by blast
qed

lemma bound_inv_validate:
  assumes "bound_inv tbl socks" and "socks c = Some s"
    and "validate_room roomId pw e tbl s = (tbl', s', out)"
  shows "bound_inv tbl' (socks(c \<mapsto> s'))"
proof -
  from assms(3) have "s' = s \<and> (tbl' = tbl \<or> tbl' = tbl(roomId := None))"
    unfolding validate_room_def by (auto split: option.splits if_splits)
  then show ?thesis using assms(1,2) by (auto simp: bound_inv_same_socket bound_inv_shrink)
qed

lemma canvas_only_refl: "canvas_only tbl tbl"
  by (simp add: canvas_only_def)

lemma canvas_only_upd: "tbl r = Some room \<Longrightarrow> canvas_only tbl (tbl(r \<mapsto> room\<lparr> canvasState := cs \<rparr>))"
  unfolding canvas_only_def by blast

lemma canvas_handlers_shape:
  "canvas_only tbl (fst (object_added c obj tbl s)) \<and> fst (snd (object_added c obj tbl s)) = s"
  "canvas_only tbl (fst (object_modified c obj tbl s)) \<and> fst (snd (object_modified c obj tbl s)) = s"
  "canvas_only tbl (fst (object_removed c oid tbl s)) \<and> fst (snd (object_removed c oid tbl s)) = s"
  "canvas_only tbl (fst (canvas_clear c tbl s)) \<and> fst (snd (canvas_clear c tbl s)) = s"
  "canvas_only tbl (fst (cursor_position c x y tbl s)) \<and> fst (snd (cursor_position c x y tbl s)) = s"
  "canvas_only tbl (fst (theme_change c th col tbl s)) \<and> fst (snd (theme_change c th col tbl s)) = s"
  by (simp_all add: object_added_def object_modified_def object_removed_def canvas_clear_def
      cursor_position_def theme_change_def canvas_only_refl canvas_only_upd split: option.splits)

lemma bound_inv_canvas_only:
  assumes "bound_inv tbl socks" and "socks c = Some s" and "canvas_only tbl tbl'"
  shows "bound_inv tbl' (socks(c \<mapsto> s))"
proof -
  from assms(3) consider "tbl' = tbl"
    | r room cs where "tbl r = Some room" "tbl' = tbl(r \<mapsto> room\<lparr> canvasState := cs \<rparr>)"
    unfolding canvas_only_def by blast
  then have "bound_inv tbl' socks"
  proof cases
    case 1
    then show ?thesis using assms(1) by simp
  next
    case 2
    show ?thesis unfolding 2(2)
      by (rule bound_inv_same_members[OF assms(1) 2(1)]) simp
  qed
  then show ?thesis using assms(2) by (simp add: bound_inv_same_socket)
qed

lemma leave_room_cases:
  assumes "leave_room c tbl s = (tbl', s', out)"
  shows "(s' = s \<and> tbl' = tbl \<and> (currentRoom s = None \<or> currentRoom s = Some [])) \<or>
         (\<exists>r. currentRoom s = Some r \<and> currentRoom s' = None \<and>
            (tbl r = None \<and> tbl' = tbl \<or>
             tbl' = tbl(r := None) \<or>
             (\<exists>room. tbl r = Some room \<and> tbl' = tbl(r \<mapsto> room\<lparr> users := AList.delete c (users room) \<rparr>))))"
  using assms unfolding leave_room_def Let_def
  by (auto split: option.splits if_splits)

lemma bound_inv_leave:
  assumes "bound_inv tbl socks" and "socks c = Some s"
    and "leave_room c tbl s = (tbl', s', out)"
  shows "bound_inv tbl' (socks(c \<mapsto> s'))"
proof -
  from leave_room_cases[OF assms(3)] consider
      (noop) "s' = s" "tbl' = tbl"
    | (left) r where "currentRoom s = Some r" "currentRoom s' = None"
        "tbl r = None \<and> tbl' = tbl \<or> tbl' = tbl(r := None) \<or>
         (\<exists>room. tbl r = Some room \<and> tbl' = tbl(r \<mapsto> room\<lparr> users := AList.delete c (users room) \<rparr>))"
    by blast
  then show ?thesis
  proof cases
    case noop
    then show ?thesis using assms(1,2) by (simp add: bound_inv_same_socket)
  next
    case left
    show ?thesis
    proof (rule bound_invI)
      fix d r' room'
      assume new: "tbl' r' = Some room'" "has_user room' d"
      have old: "\<exists>room0. tbl r' = Some room0 \<and> has_user room0 d \<and> (r' = r \<longrightarrow> d \<noteq> c)"
        using left(3) new by (auto simp: has_user_delete split: if_splits)
      then obtain room0 where r0: "tbl r' = Some room0" "has_user room0 d" "r' = r \<longrightarrow> d \<noteq> c"
        by blast
      from bound_invD[OF assms(1) r0(1,2)] obtain t where t: "socks d = Some t" "currentRoom t = Some r'"
        by blast
      have "d \<noteq> c" using t assms(2) left(1) r0(3) by auto
      with t show "\<exists>t. (socks(c \<mapsto> s')) d = Some t \<and> currentRoom t = Some r'" by simp
    qed
  qed
qed

lemma disconnect_cases:
  assumes "disconnect c tbl s = (tbl', s', out)"
  shows "s' = s \<and> (tbl' = tbl \<or>
           (\<exists>r room. tbl r = Some room \<and> tbl' = tbl(r \<mapsto> room\<lparr> users := AList.delete c (users room) \<rparr>)))"
  using assms unfolding disconnect_def
  by (auto split: option.splits if_splits)

lemma bound_inv_socket_flags:
  assumes "bound_inv tbl socks" and "socks c = Some s"
  shows "bound_inv tbl (socks(c \<mapsto> s\<lparr> joined := j, online := b \<rparr>))"
proof (rule bound_invI)
  fix d r room
  assume "tbl r = Some room" "has_user room d"
  from bound_invD[OF assms(1) this] assms(2)
  show "\<exists>t. (socks(c \<mapsto> s\<lparr> joined := j, online := b \<rparr>)) d = Some t \<and> currentRoom t = Some r"
    by auto
qed

lemma bound_inv_disconnect:
  assumes "bound_inv tbl socks" and "socks c = Some s"
    and "disconnect c tbl s = (tbl', s', out)"
  shows "bound_inv tbl' (socks(c \<mapsto> s'\<lparr> joined := {}, online := False \<rparr>))"
proof -
  from disconnect_cases[OF assms(3)] consider "s' = s" "tbl' = tbl"
    | r room where "s' = s" "tbl r = Some room"
        "tbl' = tbl(r \<mapsto> room\<lparr> users := AList.delete c (users room) \<rparr>)"
    by blast
  then show ?thesis
  proof cases
    case 1
    then show ?thesis using assms(1,2) by (simp add: bound_inv_socket_flags)
  next
    case 2
    have "bound_inv tbl' socks" unfolding 2(3)
      by (rule bound_inv_same_members[OF assms(1) 2(2)]) (simp add: has_user_delete)
    then show ?thesis using assms(2) 2(1) by (simp add: bound_inv_socket_flags)
  qed
qed

lemma bound_inv_cleanup:
  assumes "bound_inv tbl socks"
  shows "bound_inv (cleanup t tbl) socks"
  using assms unfolding bound_inv_def cleanup_def
  by (auto split: option.splits if_splits)

lemma bound_inv_connect:
  assumes "bound_inv tbl socks" and "socks c = None"
  shows "bound_inv tbl (socks(c \<mapsto> fresh_session))"
proof (rule bound_invI)
  fix d r room
  assume "tbl r = Some room" "has_user room d"
  from bound_invD[OF assms(1) this] assms(2)
  show "\<exists>t. (socks(c \<mapsto> fresh_session)) d = Some t \<and> currentRoom t = Some r"
    by auto
qed

lemma step_preserves:
  assumes "bound_inv (store st) (sockets st)" and "binds_from_unbound st i"
  shows "bound_inv (store (fst (step st i))) (sockets (fst (step st i)))"
proof (cases i)
  case (Connect c)
  then show ?thesis using assms(1)
    by (auto simp: bound_inv_connect split: option.splits)
next
  case (Message c m e)
  show ?thesis
  proof (cases "sockets st c")
    case None
    with Message assms(1) show ?thesis by simp
  next
    case (Some s)
    show ?thesis
    proof (cases "online s")
      case False
      with Message Some assms(1) show ?thesis by simp
    next
      case True
      obtain tbl' s' out where h: "handle c m e (store st) s = (tbl', s', out)"
        by (cases "handle c m e (store st) s") auto
      have "bound_inv tbl' ((sockets st)(c \<mapsto> s'))"
      proof (cases m)
        case (Create_Room u)
        with h assms(2) Message Some True show ?thesis
          using bound_inv_create[OF assms(1) Some] by (simp add: handle_def)
      next
        case (Validate_Room r p)
        with h show ?thesis
          using bound_inv_validate[OF assms(1) Some] by (simp add: handle_def)
      next
        case (Join_Room r p u)
        with h assms(2) Message Some True show ?thesis
          using bound_inv_join[OF assms(1) Some] by (simp add: handle_def)
      next
        case (Canvas_Object_Added obj)
        with h canvas_handlers_shape(1)[of "store st" c obj s] show ?thesis
          using bound_inv_canvas_only[OF assms(1) Some] by (simp add: handle_def)
      next
        case (Canvas_Object_Modified obj)
        with h canvas_handlers_shape(2)[of "store st" c obj s] show ?thesis
          using bound_inv_canvas_only[OF assms(1) Some] by (simp add: handle_def)
      next
        case (Canvas_Object_Removed oid)
        with h canvas_handlers_shape(3)[of "store st" c oid s] show ?thesis
          using bound_inv_canvas_only[OF assms(1) Some] by (simp add: handle_def)
      next
        case Canvas_Clear
        with h canvas_handlers_shape(4)[of "store st" c s] show ?thesis
          using bound_inv_canvas_only[OF assms(1) Some] by (simp add: handle_def)
      next
        case (Cursor_Position x y)
        with h canvas_handlers_shape(5)[of "store st" c x y s] show ?thesis
          using bound_inv_canvas_only[OF assms(1) Some] by (simp add: handle_def)
      next
        case (Theme_Change th col)
        with h canvas_handlers_shape(6)[of "store st" c th col s] show ?thesis
          using bound_inv_canvas_only[OF assms(1) Some] by (simp add: handle_def)
      next
        case Leave_Room
        with h show ?thesis
          using bound_inv_leave[OF assms(1) Some] by (simp add: handle_def)
      qed
      with Message Some True h show ?thesis by simp
    qed
  qed
next
  case (Disconnect c)
  show ?thesis
  proof (cases "sockets st c")
    case None
    with Disconnect assms(1) show ?thesis by simp
  next
    case (Some s)
    show ?thesis
    proof (cases "online s")
      case False
      with Disconnect Some assms(1) show ?thesis by simp
    next
      case True
      obtain tbl' s' out where h: "disconnect c (store st) s = (tbl', s', out)"
        by (cases "disconnect c (store st) s") auto
      from bound_inv_disconnect[OF assms(1) Some h] Disconnect Some True h
      show ?thesis by simp
    qed
  qed
next
  case (Sweep t)
  then show ?thesis using assms(1) by (simp add: bound_inv_cleanup)
qed

lemma run_preserves:
  "bound_inv (store st) (sockets st) \<Longrightarrow> disciplined st evs \<Longrightarrow>
     bound_inv (store (run st evs)) (sockets (run st evs))"
proof (induction evs arbitrary: st)
  case Nil
  then show ?case by simp
next
  case (Cons i evs)
  from Cons.prems have "bound_inv (store (fst (step st i))) (sockets (fst (step st i)))"
    by (simp add: step_preserves)
  with Cons.IH Cons.prems(2) show ?case by simp
qed

lemma bound_inv_init: "bound_inv (store init) (sockets init)"
  by (simp add: bound_inv_def init_def)

subsection \<open>Relays reach the users of a room\<close>

lemma group_invI:
  "(\<And>d r room. tbl r = Some room \<Longrightarrow> has_user room d \<Longrightarrow>
      \<exists>s. socks d = Some s \<and> (online s \<longrightarrow> r \<in> joined s)) \<Longrightarrow> group_inv tbl socks"
  unfolding group_inv_def by blast

lemma group_invD:
  "group_inv tbl socks \<Longrightarrow> tbl r = Some room \<Longrightarrow> has_user room d \<Longrightarrow>
     \<exists>s. socks d = Some s \<and> (online s \<longrightarrow> r \<in> joined s)"
  unfolding group_inv_def by blast

text \<open>
  One handler run for socket \<open>c\<close>: users other than \<open>c\<close> come from the old table, and
  \<open>c\<close> is in the group of every room that lists it.
\<close>

lemma group_inv_handler:
  assumes inv: "group_inv tbl socks"
    and others: "\<And>d r room'. tbl' r = Some room' \<Longrightarrow> has_user room' d \<Longrightarrow> d \<noteq> c \<Longrightarrow>
                   \<exists>room. tbl r = Some room \<and> has_user room d"
    and self: "\<And>r room'. tbl' r = Some room' \<Longrightarrow> has_user room' c \<Longrightarrow> online s' \<Longrightarrow> r \<in> joined s'"
  shows "group_inv tbl' (socks(c \<mapsto> s'))"
proof (rule group_invI)
  fix d r room'
  assume new: "tbl' r = Some room'" "has_user room' d"
  show "\<exists>t. (socks(c \<mapsto> s')) d = Some t \<and> (online t \<longrightarrow> r \<in> joined t)"
  proof (cases "d = c")
    case True
    with self[OF new(1)] new(2) show ?thesis by simp
  next
    case False
    from others[OF new False] obtain room where "tbl r = Some room" "has_user room d" by blast
    from group_invD[OF inv this] False show ?thesis by simp
  qed
qed

lemma group_inv_self_old:
  assumes "group_inv tbl socks" and "socks c = Some s" and "tbl r = Some room" and "has_user room c"
    and "online s"
  shows "r \<in> joined s"
  using group_invD[OF assms(1,3,4)] assms(2,5) by simp

lemma group_inv_create:
  assumes "group_inv tbl socks" and "socks c = Some s"
    and "create_room c userData e tbl s = (tbl', s', out)"
  shows "group_inv tbl' (socks(c \<mapsto> s'))"
proof (rule group_inv_handler[OF assms(1)])
  let ?rid = "generateRoomId (random36 e)"
  have t: "tbl' = tbl(?rid \<mapsto> \<lparr> users = [(c, mk_user c userData)],
              canvasState = \<lparr> objects = [], theme = ''dark'', canvasColor = ''#1a1a1a'' \<rparr>,
              password = generateRoomPassword (draws e),
              createdAt = now e,
              expiresAt = now2 e + 24 * 60 * 60 * 1000,
              rejoinCounts = Map.empty,
              creatorId = c \<rparr>)"
    and s': "joined s' = insert ?rid (joined s)" "online s' = online s"
    using assms(3) by (auto simp: create_room_def Let_def)
  fix d r room'
  assume new: "tbl' r = Some room'" "has_user room' d" "d \<noteq> c"
  show "\<exists>room. tbl r = Some room \<and> has_user room d"
  proof (cases "r = ?rid")
    case True
    with new t show ?thesis by (auto simp: has_user_def)
  next
    case False
    with new t show ?thesis by simp
  qed
next
  let ?rid = "generateRoomId (random36 e)"
  have t: "\<And>r. r \<noteq> ?rid \<Longrightarrow> tbl' r = tbl r"
    and s': "joined s' = insert ?rid (joined s)" "online s' = online s"
    using assms(3) by (auto simp: create_room_def Let_def)
  fix r room'
  assume new: "tbl' r = Some room'" "has_user room' c" "online s'"
  show "r \<in> joined s'"
  proof (cases "r = ?rid")
    case True
    with s' show ?thesis by simp
  next
    case False
    with new t have "tbl r = Some room'" by simp
    from group_inv_self_old[OF assms(1,2) this new(2)] new(3) s' show ?thesis by simp
  qed
qed


lemma group_inv_same_socket:
  assumes "group_inv tbl socks" and "socks c = Some s"
  shows "group_inv tbl (socks(c \<mapsto> s))"
  using assms by (simp add: fun_upd_idem)

lemma group_inv_shrink:
  assumes "group_inv tbl socks"
  shows "group_inv (tbl(r := None)) socks"
  using assms unfolding group_inv_def by auto

lemma join_room_session:
  assumes "join_room c roomId pw userData e tbl s = (tbl', s', out)"
  shows "(s' = s \<and> (tbl' = tbl \<or> tbl' = tbl(roomId := None))) \<or>
         (\<exists>room cu rc. tbl roomId = Some room \<and>
            s' = s\<lparr> currentRoom := Some roomId, currentUser := Some cu,
                    joined := insert roomId (joined s) \<rparr> \<and>
            tbl' = tbl(roomId \<mapsto> room\<lparr> users := AList.update c cu (users room), rejoinCounts := rc \<rparr>))"
  using assms unfolding join_room_def Let_def
  by (auto split: option.splits if_splits)

lemma group_inv_join:
  assumes "group_inv tbl socks" and "socks c = Some s"
    and "join_room c roomId pw userData e tbl s = (tbl', s', out)"
  shows "group_inv tbl' (socks(c \<mapsto> s'))"
proof -
  from join_room_session[OF assms(3)] consider
      (unchanged) "s' = s" "tbl' = tbl"
    | (expired) "s' = s" "tbl' = tbl(roomId := None)"
    | (joined) room cu rc where "tbl roomId = Some room"
         "s' = s\<lparr> currentRoom := Some roomId, currentUser := Some cu,
                 joined := insert roomId (joined s) \<rparr>"
         "tbl' = tbl(roomId \<mapsto> room\<lparr> users := AList.update c cu (users room), rejoinCounts := rc \<rparr>)"
    by blast
  then show ?thesis
  proof cases
    case unchanged
    then show ?thesis using assms(1,2) by (simp add: group_inv_same_socket)
  next
    case expired
    then show ?thesis using assms(1,2) by (simp add: group_inv_same_socket group_inv_shrink)
  next
    case joined
    have js: "joined s' = insert roomId (joined s)" "online s' = online s"
      using joined(2) by simp_all
    show ?thesis
    proof (rule group_inv_handler[OF assms(1)])
      fix d r room'
      assume new: "tbl' r = Some room'" "has_user room' d" "d \<noteq> c"
      show "\<exists>room. tbl r = Some room \<and> has_user room d"
      proof (cases "r = roomId")
        case True
        with new joined(3) have "has_user room d" by (auto simp: has_user_update)
        with True joined(1) show ?thesis by blast
      next
        case False
        with new joined(3) show ?thesis by auto
      qed
    next
      fix r room'
      assume new: "tbl' r = Some room'" "has_user room' c" "online s'"
      show "r \<in> joined s'"
      proof (cases "r = roomId")
        case True
        with js show ?thesis by simp
      next
        case False
        with new joined(3) have "tbl r = Some room'" by simp
        from group_inv_self_old[OF assms(1,2) this new(2)] new(3) js show ?thesis by simp
      qed
    qed
  qed
qed

lemma group_inv_same_members:
  assumes "group_inv tbl socks" and "tbl r = Some room"
    and "\<And>d. has_user room' d \<Longrightarrow> has_user room d"
  shows "group_inv (tbl(r \<mapsto> room')) socks"
proof (rule group_invI)
  fix d r' room''
  assume new: "(tbl(r \<mapsto> room')) r' = Some room''" "has_user room'' d"
  from room_table_cases[OF new(1)] new(2) assms(2,3)
  have "\<exists>room0. tbl r' = Some room0 \<and> has_user room0 d" by auto
  then show "\<exists>s. socks d = Some s \<and> (online s \<longrightarrow> r' \<in> joined s)"
    using group_invD[OF assms(1)] by blast
qed

lemma group_inv_validate:
  assumes "group_inv tbl socks" and "socks c = Some s"
    and "validate_room roomId pw e tbl s = (tbl', s', out)"
  shows "group_inv tbl' (socks(c \<mapsto> s'))"
proof -
  from assms(3) have "s' = s \<and> (tbl' = tbl \<or> tbl' = tbl(roomId := None))"
    unfolding validate_room_def by (auto split: option.splits if_splits)
  then show ?thesis using assms(1,2) by (auto simp: group_inv_same_socket group_inv_shrink)
qed

lemma group_inv_canvas_only:
  assumes "group_inv tbl socks" and "socks c = Some s" and "canvas_only tbl tbl'"
  shows "group_inv tbl' (socks(c \<mapsto> s))"
proof -
  from assms(3) consider "tbl' = tbl"
    | r room cs where "tbl r = Some room" "tbl' = tbl(r \<mapsto> room\<lparr> canvasState := cs \<rparr>)"
    unfolding canvas_only_def by blast
  then have "group_inv tbl' socks"
  proof cases
    case 1
    then show ?thesis using assms(1) by simp
  next
    case 2
    show ?thesis unfolding 2(2)
      by (rule group_inv_same_members[OF assms(1) 2(1)]) simp
  qed
  then show ?thesis using assms(2) by (simp add: group_inv_same_socket)
qed

lemma leave_room_session:
  assumes "leave_room c tbl s = (tbl', s', out)"
  shows "s' = s \<and> tbl' = tbl \<or>
         (\<exists>r. currentRoom s = Some r \<and>
               s' = s\<lparr> currentRoom := None, currentUser := None, joined := joined s - {r} \<rparr> \<and>
               (tbl r = None \<and> tbl' = tbl \<or> tbl' = tbl(r := None) \<or>
                (\<exists>room. tbl r = Some room \<and>
                   tbl' = tbl(r \<mapsto> room\<lparr> users := AList.delete c (users room) \<rparr>))))"
  using assms unfolding leave_room_def Let_def
  by (auto split: option.splits if_splits)

lemma group_inv_leave:
  assumes "group_inv tbl socks" and "socks c = Some s"
    and "leave_room c tbl s = (tbl', s', out)"
  shows "group_inv tbl' (socks(c \<mapsto> s'))"
proof -
  from leave_room_session[OF assms(3)] consider
      (noop) "s' = s" "tbl' = tbl"
    | (left) r where "currentRoom s = Some r"
        "s' = s\<lparr> currentRoom := None, currentUser := None, joined := joined s - {r} \<rparr>"
        "tbl r = None \<and> tbl' = tbl \<or> tbl' = tbl(r := None) \<or>
         (\<exists>room. tbl r = Some room \<and> tbl' = tbl(r \<mapsto> room\<lparr> users := AList.delete c (users room) \<rparr>))"
    by blast
  then show ?thesis
  proof cases
    case noop
    then show ?thesis using assms(1,2) by (simp add: group_inv_same_socket)
  next
    case left
    have old: "\<And>d r' room'. tbl' r' = Some room' \<Longrightarrow> has_user room' d \<Longrightarrow>
                 \<exists>room0. tbl r' = Some room0 \<and> has_user room0 d \<and> (r' = r \<longrightarrow> d \<noteq> c)"
      using left(3) by (auto simp: has_user_delete split: if_splits)
    show ?thesis
    proof (rule group_inv_handler[OF assms(1)])
      fix d r' room'
      assume "tbl' r' = Some room'" "has_user room' d" "d \<noteq> c"
      from old[OF this(1,2)] show "\<exists>room. tbl r' = Some room \<and> has_user room d" by blast
    next
      fix r' room'
      assume new: "tbl' r' = Some room'" "has_user room' c" "online s'"
      from old[OF new(1,2)] obtain room0 where r0: "tbl r' = Some room0" "has_user room0 c" "r' \<noteq> r"
        by blast
      from new(3) left(2) have "online s" by simp
      from group_inv_self_old[OF assms(1,2) r0(1,2) this] r0(3) left(2)
      show "r' \<in> joined s'" by simp
    qed
  qed
qed

lemma group_inv_disconnect:
  assumes "group_inv tbl socks" and "socks c = Some s"
    and "disconnect c tbl s = (tbl', s', out)"
  shows "group_inv tbl' (socks(c \<mapsto> s'\<lparr> joined := {}, online := False \<rparr>))"
proof -
  from disconnect_cases[OF assms(3)] consider "tbl' = tbl"
    | r room where "tbl r = Some room"
        "tbl' = tbl(r \<mapsto> room\<lparr> users := AList.delete c (users room) \<rparr>)"
    by blast
  then have "group_inv tbl' socks"
  proof cases
    case 1
    then show ?thesis using assms(1) by simp
  next
    case 2
    show ?thesis unfolding 2(2)
      by (rule group_inv_same_members[OF assms(1) 2(1)]) (simp add: has_user_delete)
  qed
  then show ?thesis
  proof (rule group_inv_handler)
    fix d r room'
    assume "tbl' r = Some room'" "has_user room' d"
    then show "\<exists>room. tbl' r = Some room \<and> has_user room d" by blast
  next
    fix r
    assume "online (s'\<lparr> joined := {}, online := False \<rparr>)"
    then show "r \<in> joined (s'\<lparr> joined := {}, online := False \<rparr>)" by simp
  qed
qed

lemma group_inv_cleanup:
  assumes "group_inv tbl socks"
  shows "group_inv (cleanup t tbl) socks"
proof (rule group_invI)
  fix d r room
  assume "cleanup t tbl r = Some room" "has_user room d"
  then have "tbl r = Some room \<and> has_user room d"
    by (auto simp: cleanup_def split: option.splits if_splits)
  with group_invD[OF assms] show "\<exists>s. socks d = Some s \<and> (online s \<longrightarrow> r \<in> joined s)"
    by blast
qed

lemma group_inv_connect:
  assumes "group_inv tbl socks" and "socks c = None"
  shows "group_inv tbl (socks(c \<mapsto> fresh_session))"
proof (rule group_invI)
  fix d r room
  assume "tbl r = Some room" "has_user room d"
  from group_invD[OF assms(1) this] assms(2)
  show "\<exists>t. (socks(c \<mapsto> fresh_session)) d = Some t \<and> (online t \<longrightarrow> r \<in> joined t)"
    by auto
qed

lemma group_step:
  assumes "group_inv (store st) (sockets st)"
  shows "group_inv (store (fst (step st i))) (sockets (fst (step st i)))"
proof (cases i)
  case (Connect c)
  then show ?thesis using assms
    by (auto simp: group_inv_connect split: option.splits)
next
  case (Message c m e)
  show ?thesis
  proof (cases "sockets st c")
    case None
    with Message assms show ?thesis by simp
  next
    case (Some s)
    show ?thesis
    proof (cases "online s")
      case False
      with Message Some assms show ?thesis by simp
    next
      case True
      obtain tbl' s' out where h: "handle c m e (store st) s = (tbl', s', out)"
        by (cases "handle c m e (store st) s") auto
      have "group_inv tbl' ((sockets st)(c \<mapsto> s'))"
      proof (cases m)
        case (Create_Room u)
        with h show ?thesis
          using group_inv_create[OF assms Some] by (simp add: handle_def)
      next
        case (Validate_Room r p)
        with h show ?thesis
          using group_inv_validate[OF assms Some] by (simp add: handle_def)
      next
        case (Join_Room r p u)
        with h show ?thesis
          using group_inv_join[OF assms Some] by (simp add: handle_def)
      next
        case (Canvas_Object_Added obj)
        with h canvas_handlers_shape(1)[of "store st" c obj s] show ?thesis
          using group_inv_canvas_only[OF assms Some] by (simp add: handle_def)
      next
        case (Canvas_Object_Modified obj)
        with h canvas_handlers_shape(2)[of "store st" c obj s] show ?thesis
          using group_inv_canvas_only[OF assms Some] by (simp add: handle_def)
      next
        case (Canvas_Object_Removed oid)
        with h canvas_handlers_shape(3)[of "store st" c oid s] show ?thesis
          using group_inv_canvas_only[OF assms Some] by (simp add: handle_def)
      next
        case Canvas_Clear
        with h canvas_handlers_shape(4)[of "store st" c s] show ?thesis
          using group_inv_canvas_only[OF assms Some] by (simp add: handle_def)
      next
        case (Cursor_Position x y)
        with h canvas_handlers_shape(5)[of "store st" c x y s] show ?thesis
          using group_inv_canvas_only[OF assms Some] by (simp add: handle_def)
      next
        case (Theme_Change th col)
        with h canvas_handlers_shape(6)[of "store st" c th col s] show ?thesis
          using group_inv_canvas_only[OF assms Some] by (simp add: handle_def)
      next
        case Leave_Room
        with h show ?thesis
          using group_inv_leave[OF assms Some] by (simp add: handle_def)
      qed
      with Message Some True h show ?thesis by simp
    qed
  qed
next
  case (Disconnect c)
  show ?thesis
  proof (cases "sockets st c")
    case None
    with Disconnect assms show ?thesis by simp
  next
    case (Some s)
    show ?thesis
    proof (cases "online s")
      case False
      with Disconnect Some assms show ?thesis by simp
    next
      case True
      obtain tbl' s' out where h: "disconnect c (store st) s = (tbl', s', out)"
        by (cases "disconnect c (store st) s") auto
      from group_inv_disconnect[OF assms Some h] Disconnect Some True h
      show ?thesis by simp
    qed
  qed
next
  case (Sweep t)
  then show ?thesis using assms by (simp add: group_inv_cleanup)
qed

lemma group_run:
  "group_inv (store st) (sockets st) \<Longrightarrow> group_inv (store (run st evs)) (sockets (run st evs))"
proof (induction evs arbitrary: st)
  case Nil
  then show ?case by simp
next
  case (Cons i evs)
  from Cons.prems have "group_inv (store (fst (step st i))) (sockets (fst (step st i)))"
    by (rule group_step)
  with Cons.IH show ?case by simp
qed

lemma relay_reaches_members:
  assumes "store (run init evs) r = Some room" and "has_user room d" and "d \<noteq> c"
    and "sockets (run init evs) d = Some sd" and "online sd"
  shows "receives (sockets (run init evs)) c (ToOthers r) d"
proof -
  have "group_inv (store init) (sockets init)"
    by (simp add: group_inv_def init_def)
  then have "group_inv (store (run init evs)) (sockets (run init evs))"
    by (rule group_run)
  from group_invD[OF this assms(1,2)] assms(3-5) show ?thesis
    by (simp add: receives_def)
qed

subsection \<open>Example runs\<close>

lemma findIndex_None: "(findIndex p xs = None) = (\<forall>x\<in>set xs. \<not> p x)"
  by (induction xs) auto

lemma run_created:
  "run init trace_created =
     \<lparr> store = [''ABCDEF'' \<mapsto> lone_room], sockets = [''c1'' \<mapsto> bound_session] \<rparr>"
  by (simp add: ex_defs eval_defs)

lemma run_rejoins:
  "store (run init trace_rejoins) = [''ABCDEF'' \<mapsto> limit_room] \<and>
   sockets (run init trace_rejoins) ''c6'' = Some fresh_session \<and>
   step (run init trace_rejoins) (Message ''c6'' (Join_Room ''ABCDEF'' ''SSSSSS'' bob) (env_at 50 [])) =
     (run init trace_rejoins, [(ToSender, Error ''Maximum rejoin limit reached (3 attempts)'')])"
  by (simp add: ex_defs eval_defs numeral_3_eq_3)

text \<open>
  \<^verbatim>\<open>leave-room\<close> from a socket bound to an existing room whose only user it is: the room
  is deleted, \<^verbatim>\<open>user-left\<close> is relayed and the socket is unbound.
\<close>

lemma leave_room_deletes_emptied_room:
  assumes "currentRoom s = Some r" and "r \<noteq> []" and "tbl r = Some room"
    and "AList.delete sid (users room) = []"
  shows "leave_room sid tbl s =
          (tbl(r := None),
           s\<lparr> currentRoom := None, currentUser := None, joined := joined s - {r} \<rparr>,
           [(ToOthers r, UserLeft sid)])"
  using assms by (simp add: leave_room_def Let_def)

subsection \<open>Claims\<close>

text \<open>
  C1. A room that \<^verbatim>\<open>leave-room\<close> empties is to stay in the table until its \<^verbatim>\<open>expiresAt\<close>,
  as it does when its last user disconnects. The \<^verbatim>\<open>leave-room\<close> handler deletes it
  instead (\<open>leave_room_deletes_emptied_room\<close>). In the run in which \<open>c1\<close> creates room
  \<open>ABCDEF\<close> and then sends \<^verbatim>\<open>leave-room\<close>, the room is in the table with \<open>c1\<close> as its only
  user and \<open>c1\<close> is bound to it before the leave, and the table has no room \<open>ABCDEF\<close>
  after it.
\<close>

theorem leave_room_deletes_room_after_create:
  "map_option users (store (run init trace_created) ''ABCDEF'') =
     Some [(''c1'', mk_user ''c1'' alice)] \<and>
   map_option currentRoom (sockets (run init trace_created) ''c1'') = Some (Some ''ABCDEF'') \<and>
   AList.delete ''c1'' [(''c1'', mk_user ''c1'' alice)] = [] \<and>
   store (run init (trace_created @ [Message ''c1'' Leave_Room (env_at 20 [])])) ''ABCDEF'' = None"
  by (simp add: ex_defs eval_defs)

text \<open>
  C2. \<^verbatim>\<open>create-room\<close> answers with a room id of six characters only when the base-36 text
  of the random number has six digits after \<^verbatim>\<open>"0."\<close>. \<^verbatim>\<open>Math.random()\<close> may return 0.5,
  whose text is \<^verbatim>\<open>"0.i"\<close>; the room id is then the one-character string \<^verbatim>\<open>"I"\<close>. (The
  password and the initial canvas state are as claimed: \<open>generateRoomPassword_shape\<close>,
  \<open>create_room_canvasState\<close>.)
\<close>

theorem create_room_short_roomId:
  "length (generateRoomId ''0.i'') = 1 \<and>
   snd (snd (create_room ''c1'' alice (env_at 0 ''0.i'') Map.empty fresh_session)) =
     [(ToSender, RoomCreated ''I'' ''SSSSSS'' (mk_user ''c1'' alice))]"
  by (simp add: ex_defs eval_defs)

text \<open>
  C3. The claim is that in every reachable state a connection id is a key of \<^verbatim>\<open>users\<close> in
  at most one room. The handlers of \<^verbatim>\<open>create-room\<close> and \<^verbatim>\<open>join-room\<close> do not look at
  \<^verbatim>\<open>currentRoom\<close> before binding, so a bound connection that sends either message again
  stays in the \<^verbatim>\<open>users\<close> of its old room. Amended claim: in every state reached by a run
  in which \<^verbatim>\<open>create-room\<close> and \<^verbatim>\<open>join-room\<close> are sent only by connections whose
  \<^verbatim>\<open>currentRoom\<close> is \<^verbatim>\<open>null\<close>, a connection id is a key of \<^verbatim>\<open>users\<close> in at most one room.
\<close>

theorem one_room_per_connection:
  assumes "disciplined init evs"
  shows "single_membership (store (run init evs))"
  using run_preserves[OF bound_inv_init assms] by (rule bound_inv_single)

theorem one_room_per_connection_witness:
  "disciplined init trace_join_leave \<and> single_membership (store (run init trace_join_leave))"
proof -
  have d: "disciplined init trace_join_leave"
    by (simp add: ex_defs eval_defs)
  from one_room_per_connection[OF d] d show ?thesis by simp
qed

text \<open>
  The claim as stated fails on the run in which \<open>c1\<close> sends \<^verbatim>\<open>create-room\<close> twice: \<open>c1\<close> is
  then a user of both \<open>ABCDEF\<close> and \<open>UVWXYZ\<close>.
\<close>

theorem two_rooms_counterexample:
  "\<not> single_membership (store (run init trace_two_rooms))"
proof
  assume h: "single_membership (store (run init trace_two_rooms))"
  have "\<exists>room1 room2. store (run init trace_two_rooms) ''ABCDEF'' = Some room1 \<and>
          store (run init trace_two_rooms) ''UVWXYZ'' = Some room2 \<and>
          has_user room1 ''c1'' \<and> has_user room2 ''c1''"
    by (simp add: ex_defs eval_defs has_user_def)
  with h have "''ABCDEF'' = ''UVWXYZ''" unfolding single_membership_def by blast
  then show False by simp
qed

text \<open>
  C4. A \<^verbatim>\<open>join-room\<close> for an existing, unexpired room with the right password, whose key
  (\<^verbatim>\<open>userData.userId\<close>, or the socket id when that is missing or empty) already has a
  rejoin count of 3 or more, sends the error \<^verbatim>\<open>Maximum rejoin limit reached (3 attempts)\<close>
  to the sender and nothing else: the table, hence \<^verbatim>\<open>users\<close> and \<^verbatim>\<open>rejoinCounts\<close>, and the
  socket's \<^verbatim>\<open>currentRoom\<close> and \<^verbatim>\<open>currentUser\<close> are unchanged. The count reaches 3 with
  the third rejoin, that is, the fourth successful join under the key (\<open>run_rejoins\<close>).
\<close>

theorem join_room_rejoin_limit:
  assumes "tbl roomId = Some room" and "\<not> now e > expiresAt room" and "password room = pw"
    and "rejoinCounts room (userIdToTrack sid userData) = Some n" and "3 \<le> n"
  shows "join_room sid roomId pw userData e tbl s =
          (tbl, s, [(ToSender, Error ''Maximum rejoin limit reached (3 attempts)'')])"
  using assms by (simp add: join_room_def Let_def)

theorem join_room_rejoin_limit_witness:
  "[''ABCDEF'' \<mapsto> limit_room] ''ABCDEF'' = Some limit_room \<and>
   \<not> now (env_at 10 []) > expiresAt limit_room \<and>
   password limit_room = ''SSSSSS'' \<and>
   rejoinCounts limit_room (userIdToTrack ''c2'' bob) = Some 3 \<and> (3::nat) \<le> 3 \<and>
   join_room ''c2'' ''ABCDEF'' ''SSSSSS'' bob (env_at 10 []) [''ABCDEF'' \<mapsto> limit_room] fresh_session =
     ([''ABCDEF'' \<mapsto> limit_room], fresh_session,
      [(ToSender, Error ''Maximum rejoin limit reached (3 attempts)'')])"
  using join_room_rejoin_limit
    [of "[''ABCDEF'' \<mapsto> limit_room]" "''ABCDEF''" limit_room "env_at 10 []" "''SSSSSS''"
        "''c2''" bob 3 fresh_session]
  by (simp add: ex_defs userIdToTrack_def)

text \<open>
  C5. A \<^verbatim>\<open>join-room\<close> for an existing, unexpired room with a password different from the
  room's sends the error \<^verbatim>\<open>Incorrect password\<close> to the sender and leaves the whole table
  (the room's \<^verbatim>\<open>users\<close>, \<^verbatim>\<open>rejoinCounts\<close> and \<^verbatim>\<open>canvasState\<close> included) and the socket as
  they were.
\<close>

theorem join_room_wrong_password:
  assumes "tbl roomId = Some room" and "\<not> now e > expiresAt room" and "password room \<noteq> pw"
  shows "join_room sid roomId pw userData e tbl s =
          (tbl, s, [(ToSender, Error ''Incorrect password'')])"
  using assms by (simp add: join_room_def)

theorem join_room_wrong_password_witness:
  "[''ABCDEF'' \<mapsto> lone_room] ''ABCDEF'' = Some lone_room \<and>
   \<not> now (env_at 10 []) > expiresAt lone_room \<and>
   password lone_room \<noteq> ''WRONG1'' \<and>
   join_room ''c2'' ''ABCDEF'' ''WRONG1'' bob (env_at 10 []) [''ABCDEF'' \<mapsto> lone_room] fresh_session =
     ([''ABCDEF'' \<mapsto> lone_room], fresh_session, [(ToSender, Error ''Incorrect password'')])"
  using join_room_wrong_password
    [of "[''ABCDEF'' \<mapsto> lone_room]" "''ABCDEF''" lone_room "env_at 10 []" "''WRONG1''"
        "''c2''" bob fresh_session]
  by (simp add: ex_defs)

text \<open>
  C6. When \<^verbatim>\<open>canvas:object:added\<close> with an object and then \<^verbatim>\<open>canvas:object:removed\<close> with
  that object's id are handled for sockets bound to the same existing room, the room is
  still in the table and its object list is the old one without the objects of that id:
  no object in it has that id.
\<close>

theorem added_then_removed:
  assumes "currentRoom s1 = Some r" and "currentRoom s2 = Some r" and "r \<noteq> []"
    and "tbl r = Some room"
  shows "\<exists>room2.
          fst (object_removed sid2 (id_obj obj) (fst (object_added sid1 obj tbl s1)) s2) r
            = Some room2 \<and>
          objects (canvasState room2) =
            filter (\<lambda>x. id_obj x \<noteq> id_obj obj) (objects (canvasState room)) \<and>
          (\<forall>x\<in>set (objects (canvasState room2)). id_obj x \<noteq> id_obj obj)"
  using assms by (simp add: object_added_def object_removed_def)

theorem added_then_removed_witness:
  "currentRoom bound_session = Some ''ABCDEF'' \<and> ''ABCDEF'' \<noteq> [] \<and>
   [''ABCDEF'' \<mapsto> drawn_room] ''ABCDEF'' = Some drawn_room \<and>
   (\<exists>room2.
      fst (object_removed ''c1'' (id_obj b2)
            (fst (object_added ''c1'' b2 [''ABCDEF'' \<mapsto> drawn_room] bound_session))
            bound_session) ''ABCDEF'' = Some room2 \<and>
      objects (canvasState room2) = [a1] \<and>
      (\<forall>x\<in>set (objects (canvasState room2)). id_obj x \<noteq> ''b2''))"
  using added_then_removed
    [of bound_session "''ABCDEF''" bound_session "[''ABCDEF'' \<mapsto> drawn_room]" drawn_room
        "''c1''" b2 "''c1''"]
  by (simp add: ex_defs)

text \<open>
  C7. For a socket bound to an existing room, \<^verbatim>\<open>canvas:object:modified\<close> with an object
  whose id no object of the room has leaves the table unchanged (so the object list keeps
  its length and content) and still relays the message with \<^verbatim>\<open>socket.to(currentRoom)\<close>,
  that is, to the other sockets of the room's group; in a reachable state these include
  every other connected user of the room (\<open>relay_reaches_members\<close>).
\<close>

theorem object_modified_unknown_id:
  assumes "currentRoom s = Some r" and "r \<noteq> []" and "tbl r = Some room"
    and "\<forall>x\<in>set (objects (canvasState room)). id_obj x \<noteq> id_obj obj"
  shows "object_modified sid obj tbl s = (tbl, s, [(ToOthers r, CanvasObjectModified obj)])"
proof -
  have "findIndex (\<lambda>x. id_obj x = id_obj obj) (objects (canvasState room)) = None"
    using assms(4) by (simp add: findIndex_None)
  with assms(1-3) show ?thesis by (simp add: object_modified_def)
qed

theorem object_modified_unknown_id_witness:
  "currentRoom bound_session = Some ''ABCDEF'' \<and> ''ABCDEF'' \<noteq> [] \<and>
   [''ABCDEF'' \<mapsto> drawn_room] ''ABCDEF'' = Some drawn_room \<and>
   map id_obj (objects (canvasState drawn_room)) = [''a1''] \<and> id_obj b2 = ''b2'' \<and>
   object_modified ''c1'' b2 [''ABCDEF'' \<mapsto> drawn_room] bound_session =
     ([''ABCDEF'' \<mapsto> drawn_room], bound_session,
      [(ToOthers ''ABCDEF'', CanvasObjectModified b2)])"
proof -
  have h1: "currentRoom bound_session = Some ''ABCDEF''"
    by (simp add: bound_session_def)
  have h2: "''ABCDEF'' \<noteq> []"
    by simp
  have h3: "[''ABCDEF'' \<mapsto> drawn_room] ''ABCDEF'' = Some drawn_room"
    by simp
  have h4: "\<forall>x\<in>set (objects (canvasState drawn_room)). id_obj x \<noteq> id_obj b2"
    by (simp add: drawn_room_def a1_def b2_def)
  have h5: "map id_obj (objects (canvasState drawn_room)) = [''a1''] \<and> id_obj b2 = ''b2''"
    by (simp add: drawn_room_def a1_def b2_def)
  from object_modified_unknown_id
    [of bound_session "''ABCDEF''" "[''ABCDEF'' \<mapsto> drawn_room]" drawn_room b2 "''c1''",
     OF h1 h2 h3 h4] h1 h2 h3 h5
  show ?thesis by blast
qed

text \<open>
  C8. For a socket bound to an existing room, \<^verbatim>\<open>canvas:clear\<close> replaces the room by one
  whose object list is empty and whose theme, canvas colour, password, creation and
  expiry times, users, rejoin counts and creator are the old ones; no other room and
  nothing of the socket changes, and \<^verbatim>\<open>canvas:clear\<close> is relayed to the other sockets of
  the room's group (\<open>relay_reaches_members\<close>: in a reachable state, to every other
  connected user of the room).
\<close>

theorem canvas_clear_frame:
  assumes "currentRoom s = Some r" and "r \<noteq> []" and "tbl r = Some room"
  shows "\<exists>room'.
          canvas_clear sid tbl s = (tbl(r \<mapsto> room'), s, [(ToOthers r, CanvasClear)]) \<and>
          objects (canvasState room') = [] \<and>
          theme (canvasState room') = theme (canvasState room) \<and>
          canvasColor (canvasState room') = canvasColor (canvasState room) \<and>
          password room' = password room \<and> createdAt room' = createdAt room \<and>
          expiresAt room' = expiresAt room \<and> users room' = users room \<and>
          rejoinCounts room' = rejoinCounts room \<and> creatorId room' = creatorId room"
proof -
  let ?room' = "room\<lparr> canvasState := (canvasState room)\<lparr> objects := [] \<rparr> \<rparr>"
  have "canvas_clear sid tbl s = (tbl(r \<mapsto> ?room'), s, [(ToOthers r, CanvasClear)])"
    using assms by (simp add: canvas_clear_def)
  then show ?thesis by (intro exI[of _ ?room']) simp
qed

theorem canvas_clear_frame_witness:
  "currentRoom bound_session = Some ''ABCDEF'' \<and> ''ABCDEF'' \<noteq> [] \<and>
   [''ABCDEF'' \<mapsto> drawn_room] ''ABCDEF'' = Some drawn_room \<and>
   objects (canvasState drawn_room) = [a1] \<and>
   (\<exists>room'.
      canvas_clear ''c1'' [''ABCDEF'' \<mapsto> drawn_room] bound_session =
        ([''ABCDEF'' \<mapsto> drawn_room, ''ABCDEF'' \<mapsto> room'], bound_session,
         [(ToOthers ''ABCDEF'', CanvasClear)]) \<and>
      objects (canvasState room') = [] \<and>
      theme (canvasState room') = theme (canvasState drawn_room) \<and>
      canvasColor (canvasState room') = canvasColor (canvasState drawn_room) \<and>
      password room' = password drawn_room \<and> createdAt room' = createdAt drawn_room \<and>
      expiresAt room' = expiresAt drawn_room \<and> users room' = users drawn_room \<and>
      rejoinCounts room' = rejoinCounts drawn_room \<and> creatorId room' = creatorId drawn_room)"
proof -
  have h1: "currentRoom bound_session = Some ''ABCDEF''"
    by (simp add: bound_session_def)
  have h2: "''ABCDEF'' \<noteq> []"
    by simp
  have h3: "[''ABCDEF'' \<mapsto> drawn_room] ''ABCDEF'' = Some drawn_room"
    by simp
  have h4: "objects (canvasState drawn_room) = [a1]"
    by (simp add: drawn_room_def)
  from canvas_clear_frame
    [of bound_session "''ABCDEF''" "[''ABCDEF'' \<mapsto> drawn_room]" drawn_room "''c1''",
     OF h1 h2 h3] h1 h2 h3 h4
  show ?thesis by blast
qed

text \<open>
  C9. When the socket's \<^verbatim>\<open>currentRoom\<close> is not truthy (\<^verbatim>\<open>null\<close>, or the empty string),
  each of \<^verbatim>\<open>canvas:object:added\<close>, \<^verbatim>\<open>canvas:object:modified\<close>, \<^verbatim>\<open>canvas:object:removed\<close>,
  \<^verbatim>\<open>canvas:clear\<close>, \<^verbatim>\<open>theme-change\<close> and \<^verbatim>\<open>cursor:position\<close> returns at once: the table and
  the socket are unchanged and nothing is emitted, neither a relay nor an error.
\<close>

theorem unbound_messages_ignored:
  assumes "\<not> truthy (currentRoom s)"
  shows "object_added sid obj tbl s = (tbl, s, []) \<and>
         object_modified sid obj tbl s = (tbl, s, []) \<and>
         object_removed sid objectId tbl s = (tbl, s, []) \<and>
         canvas_clear sid tbl s = (tbl, s, []) \<and>
         theme_change sid th col tbl s = (tbl, s, []) \<and>
         cursor_position sid x y tbl s = (tbl, s, [])"
  using assms
  by (simp add: truthy_def object_added_def object_modified_def object_removed_def
      canvas_clear_def theme_change_def cursor_position_def split: option.splits)

theorem unbound_messages_ignored_witness:
  "\<not> truthy (currentRoom fresh_session) \<and>
   object_added ''c9'' a1 [''ABCDEF'' \<mapsto> drawn_room] fresh_session =
     ([''ABCDEF'' \<mapsto> drawn_room], fresh_session, []) \<and>
   object_modified ''c9'' a1 [''ABCDEF'' \<mapsto> drawn_room] fresh_session =
     ([''ABCDEF'' \<mapsto> drawn_room], fresh_session, []) \<and>
   object_removed ''c9'' ''a1'' [''ABCDEF'' \<mapsto> drawn_room] fresh_session =
     ([''ABCDEF'' \<mapsto> drawn_room], fresh_session, []) \<and>
   canvas_clear ''c9'' [''ABCDEF'' \<mapsto> drawn_room] fresh_session =
     ([''ABCDEF'' \<mapsto> drawn_room], fresh_session, []) \<and>
   theme_change ''c9'' ''dark'' (Some ''#000000'') [''ABCDEF'' \<mapsto> drawn_room] fresh_session =
     ([''ABCDEF'' \<mapsto> drawn_room], fresh_session, []) \<and>
   cursor_position ''c9'' 3 4 [''ABCDEF'' \<mapsto> drawn_room] fresh_session =
     ([''ABCDEF'' \<mapsto> drawn_room], fresh_session, [])"
proof -
  have h: "\<not> truthy (currentRoom fresh_session)"
    by (simp add: truthy_def fresh_session_def)
  from unbound_messages_ignored
    [OF h, of "''c9''" a1 "[''ABCDEF'' \<mapsto> drawn_room]" "''a1''" "''dark''" "Some ''#000000''" 3 4]
    h
  show ?thesis by simp
qed

text \<open>
  C10. When the socket that disconnects is bound to an existing room and is its last
  user, \<^verbatim>\<open>disconnect\<close> keeps the room in the table with an empty users map and relays
  \<^verbatim>\<open>user-left\<close>; the room then goes only when a sweep finds it expired. \<^verbatim>\<open>leave-room\<close> in
  the same state removes the room from the table.
\<close>

theorem disconnect_keeps_emptied_room:
  assumes "currentRoom s = Some r" and "r \<noteq> []" and "tbl r = Some room"
    and "AList.delete sid (users room) = []"
  shows "disconnect sid tbl s =
           (tbl(r \<mapsto> room\<lparr> users := [] \<rparr>), s, [(ToOthers r, UserLeft sid)]) \<and>
         cleanup t (fst (disconnect sid tbl s)) r =
           (if t > expiresAt room then None else Some (room\<lparr> users := [] \<rparr>)) \<and>
         fst (leave_room sid tbl s) r = None"
  using assms by (simp add: disconnect_def leave_room_def cleanup_def Let_def)

theorem disconnect_keeps_emptied_room_witness:
  "currentRoom bound_session = Some ''ABCDEF'' \<and> ''ABCDEF'' \<noteq> [] \<and>
   [''ABCDEF'' \<mapsto> lone_room] ''ABCDEF'' = Some lone_room \<and>
   AList.delete ''c1'' (users lone_room) = [] \<and>
   disconnect ''c1'' [''ABCDEF'' \<mapsto> lone_room] bound_session =
     ([''ABCDEF'' \<mapsto> lone_room\<lparr> users := [] \<rparr>], bound_session,
      [(ToOthers ''ABCDEF'', UserLeft ''c1'')]) \<and>
   cleanup 3600000 (fst (disconnect ''c1'' [''ABCDEF'' \<mapsto> lone_room] bound_session)) ''ABCDEF'' =
     Some (lone_room\<lparr> users := [] \<rparr>) \<and>
   fst (leave_room ''c1'' [''ABCDEF'' \<mapsto> lone_room] bound_session) ''ABCDEF'' = None"
  using disconnect_keeps_emptied_room
    [of bound_session "''ABCDEF''" "[''ABCDEF'' \<mapsto> lone_room]" lone_room "''c1''" 3600000]
  by (simp add: ex_defs cleanup_def)

end
